theory Spec2Isabelle
  imports Complex_Main
begin

section \<open>Data model of \<^verbatim>\<open>jiant/proj/main/runner.py\<close>\<close>

text \<open>
  The runners drive external collaborators (task sampler, per-task batch streams, model,
  optimizer-scheduler, log writer). The embedding threads one explicit \<open>state\<close> through
  every call and records each call on a collaborator as an \<open>event\<close> of a trace.
  What a collaborator returns is read from a stream of future results held in the state,
  so the theorems hold for every behaviour of the sampler and of the model.
  Python floats are idealised as reals (rounding is not modelled); Python ints are \<open>int\<close>.
\<close>

type_synonym task_name = string

datatype task = Task task_name

datatype error =
    KeyError string
  | AssertionError
  | UnboundLocalError string
  | ZeroDivisionError
  | RuntimeError
  | StopIteration

text \<open>\<^verbatim>\<open>TrainState\<close> (lines 34-45): a dataclass of two fields.\<close>

record TrainState =
  global_steps :: int
  task_steps :: "task_name \<rightharpoonup> int"

text \<open>
  A batch as the runners read it: \<open>len(batch)\<close>, which is also the first dimension of
  \<open>batch.to_dict()['input_ids']\<close>, and \<open>batch.to_dict()['label_id']\<close>.
  The metadata carries \<open>batch_metadata["example_id"]\<close>.
\<close>

record batch =
  batch_len :: nat
  label_id :: "real list"

record batch_metadata =
  example_id :: "int list"

text \<open>
  What \<open>wrap_jiant_forward\<close> returns. \<open>loss\<close> is the reduced loss, a 0-dimensional
  tensor whose \<open>mean()\<close> and \<open>item()\<close> are its value; with \<open>unreduced_loss=True\<close> the
  runner reads the per-example losses \<open>unreduced\<close>, of shape \<open>loss_shape\<close>.
\<close>

record model_output =
  loss :: real
  loss_shape :: "nat list"
  unreduced :: "real list"
  logits :: "real list"

text \<open>\<open>TaskSpecificConfig\<close>: the per-task hyperparameters the runners read.\<close>

record task_specific_config =
  gradient_accumulation_steps :: int
  train_batch_size :: int

record log_record =
  log_task :: task_name
  log_task_step :: int
  log_global_step :: int
  log_loss_val :: real
  log_rl_loss :: "real option"

record dds_details =
  dd_task_name :: task_name
  dd_global_steps :: int
  dd_example_ids :: "int list"
  dd_rewards :: "real list"
  dd_dds_weights :: "real list"
  dd_rl_loss :: real

text \<open>A gradient contribution left in the optimizer's buffers by one backward pass.\<close>

datatype grad =
    LossGrad real int
  | RLGrad real

datatype event =
    ModelTrain
  | ModelEval
  | WeightingEval
  | WeightingTrain
  | SamplerPop task_name
  | StreamPop task_name
  | Forward task bool
  | WeightsForward
  | Backprop real int
  | OptStep
  | ZeroGrad
  | InnerBegin
  | InnerStep
  | InnerEnd
  | GetSharedGrad bool
  | GradSim
  | DDSOptStep
  | DDSZeroGrad
  | UpdateSampler
  | LogSamplingProbabilities task_name int
  | LogDDSDetails dds_details
  | WriteEntry string log_record
  | AccumulatorUpdate real

type_synonym 'a stream = "nat \<Rightarrow> 'a"

record state =
  train_state :: TrainState
  train_dataloader_dict :: "task_name \<rightharpoonup> (batch \<times> batch_metadata) stream"
  task_sampler :: "(task_name \<times> task) stream"
  model_outputs :: "model_output stream"
  dds_weight_logits :: "real list stream"
  rl_losses :: "real stream"
  grads :: "grad list"
  weights :: "grad list list"
  trace :: "event list"

text \<open>
  The task container and the runner parameters: immutable for the run.
  \<open>task_cache_train t\<close> is the infinite stream
  \<open>InfiniteYield(get_train_dataloader_from_cache(task_cache_dict[t]["train"], ...))\<close>;
  \<open>sampler_task_dict\<close> is \<open>task_sampler.task_dict\<close> in its iteration order.
\<close>

record container =
  train_task_list :: "task_name list"
  max_steps :: int
  task_dict :: "task_name \<rightharpoonup> task"
  task_specific_configs :: "task_name \<rightharpoonup> task_specific_config"
  task_cache_train :: "task_name \<rightharpoonup> (batch \<times> batch_metadata) stream"
  sampler_task_dict :: "(task_name \<times> task) list"
  rescaled_loss :: "real \<Rightarrow> int \<Rightarrow> real"

section \<open>Actions: state passing with exceptions\<close>

type_synonym 'a action = "state \<Rightarrow> (error + 'a) \<times> state"

definition succeed :: "'a \<Rightarrow> 'a action" where
  "succeed x s = (Inr x, s)"

definition raise :: "error \<Rightarrow> 'a action" where
  "raise e s = (Inl e, s)"

definition and_then :: "'a action \<Rightarrow> ('a \<Rightarrow> 'b action) \<Rightarrow> 'b action" where
  "and_then m f s = (case m s of (Inl e, s') \<Rightarrow> (Inl e, s') | (Inr x, s') \<Rightarrow> f x s')"

definition emit :: "event \<Rightarrow> unit action" where
  "emit e s = (Inr (), s\<lparr>trace := trace s @ [e]\<rparr>)"

text \<open>\<open>for _ in range(n): acc = body(acc)\<close>; an exception leaves the loop.\<close>

fun for_range :: "nat \<Rightarrow> ('a \<Rightarrow> 'a action) \<Rightarrow> 'a \<Rightarrow> 'a action" where
  "for_range 0 body acc s = (Inr acc, s)"
| "for_range (Suc n) body acc s =
     (case body acc s of
        (Inl e, s') \<Rightarrow> (Inl e, s')
      | (Inr acc', s') \<Rightarrow> for_range n body acc' s')"

text \<open>\<open>d[k]\<close> on a dict.\<close>

definition lookup :: "(string \<rightharpoonup> 'v) \<Rightarrow> string \<Rightarrow> 'v action" where
  "lookup d k = (case d k of None \<Rightarrow> raise (KeyError k) | Some v \<Rightarrow> succeed v)"

text \<open>Python's true division \<open>x / n\<close> by an int.\<close>

definition py_div :: "real \<Rightarrow> int \<Rightarrow> real action" where
  "py_div x n = (if n = 0 then raise ZeroDivisionError else succeed (x / real_of_int n))"

definition shift :: "nat \<Rightarrow> 'a stream \<Rightarrow> 'a stream" where
  "shift n f = (\<lambda>k. f (k + n))"

section \<open>TrainState\<close>

definition from_task_name_list :: "task_name list \<Rightarrow> TrainState" where
  "from_task_name_list task_name_list =
     \<lparr>global_steps = 0, task_steps = map_of (map (\<lambda>task_name. (task_name, 0)) task_name_list)\<rparr>"

text \<open>
  \<open>step\<close> (lines 43-45): \<open>self.task_steps[task_name] += 1\<close> raises \<open>KeyError\<close> on an
  untracked name, before anything is written.
\<close>

definition step :: "TrainState \<Rightarrow> task_name \<Rightarrow> error + TrainState" where
  "step ts task_name =
     (case task_steps ts task_name of
        None \<Rightarrow> Inl (KeyError task_name)
      | Some n \<Rightarrow>
          Inr (ts\<lparr>task_steps := (task_steps ts)(task_name \<mapsto> n + 1),
                  global_steps := global_steps ts + 1\<rparr>))"

definition train_state_step :: "task_name \<Rightarrow> unit action" where
  "train_state_step task_name s =
     (case step (train_state s) task_name of
        Inl e \<Rightarrow> (Inl e, s)
      | Inr ts \<Rightarrow> (Inr (), s\<lparr>train_state := ts\<rparr>))"

section \<open>Collaborators\<close>

text \<open>\<open>self.jiant_task_container.task_sampler.pop()\<close>.\<close>

definition sampler_pop :: "(task_name \<times> task) action" where
  "sampler_pop s =
     (let drawn = task_sampler s 0
      in (Inr drawn, s\<lparr>task_sampler := shift 1 (task_sampler s),
                        trace := trace s @ [SamplerPop (fst drawn)]\<rparr>))"

text \<open>\<open>train_dataloader_dict[task_name].pop()\<close>.\<close>

definition dataloader_pop :: "task_name \<Rightarrow> (batch \<times> batch_metadata) action" where
  "dataloader_pop task_name s =
     (case train_dataloader_dict s task_name of
        None \<Rightarrow> (Inl (KeyError task_name), s)
      | Some st \<Rightarrow>
          (Inr (st 0),
           s\<lparr>train_dataloader_dict := (train_dataloader_dict s)(task_name \<mapsto> shift 1 st),
             trace := trace s @ [StreamPop task_name]\<rparr>))"

text \<open>\<open>wrap_jiant_forward(jiant_model, batch, task, compute_loss=True, unreduced_loss=u)\<close>.\<close>

definition wrap_jiant_forward :: "batch \<Rightarrow> task \<Rightarrow> bool \<Rightarrow> model_output action" where
  "wrap_jiant_forward b t u s =
     (Inr (model_outputs s 0),
      s\<lparr>model_outputs := shift 1 (model_outputs s), trace := trace s @ [Forward t u]\<rparr>)"

text \<open>
  Modelled from the spec: \<open>complex_backpropagate\<close> of \<open>jiant.shared.runner\<close> is not in the
  sources. Section 4.2: given a raw loss and the accumulation factor it scales the loss,
  contributes one backward pass to the gradient buffers, clips, and returns the
  (possibly rescaled) loss value for logging. It applies no optimizer step.
\<close>

definition complex_backpropagate :: "container \<Rightarrow> real \<Rightarrow> int \<Rightarrow> real action" where
  "complex_backpropagate c l gas s =
     (Inr (rescaled_loss c l gas),
      s\<lparr>grads := grads s @ [LossGrad l gas], trace := trace s @ [Backprop l gas]\<rparr>)"

text \<open>\<open>self.optimizer_scheduler.step()\<close>: the buffered gradients are applied to the weights.\<close>

definition optimizer_step :: "unit action" where
  "optimizer_step s =
     (Inr (), s\<lparr>weights := weights s @ [grads s], trace := trace s @ [OptStep]\<rparr>)"

text \<open>\<open>self.optimizer_scheduler.optimizer.zero_grad()\<close>.\<close>

definition zero_grad :: "unit action" where
  "zero_grad s = (Inr (), s\<lparr>grads := [], trace := trace s @ [ZeroGrad]\<rparr>)"

section \<open>JiantRunner\<close>

text \<open>
  One accumulation sub-step: the body of the micro-batch loop
  (lines 108-117; the same body at 263-272 and 553-562).
\<close>

definition micro_batch :: "container \<Rightarrow> task_name \<Rightarrow> task \<Rightarrow> int \<Rightarrow> real \<Rightarrow> real action" where
  "micro_batch c task_name tsk gas loss_val =
     and_then (dataloader_pop task_name) (\<lambda>(b, batch_metadata).
     and_then (wrap_jiant_forward b tsk False) (\<lambda>out.
     and_then (complex_backpropagate c (loss out) gas) (\<lambda>l.
     succeed (loss_val + l))))"

text \<open>\<open>JiantRunner.run_train_step\<close> (lines 101-131).\<close>

definition run_train_step_base :: "container \<Rightarrow> unit action" where
  "run_train_step_base c =
     and_then (emit ModelTrain) (\<lambda>_.
     and_then sampler_pop (\<lambda>(task_name, tsk).
     and_then (lookup (task_specific_configs c) task_name) (\<lambda>task_specific_config.
     and_then (for_range (nat (gradient_accumulation_steps task_specific_config))
                 (micro_batch c task_name tsk (gradient_accumulation_steps task_specific_config)) 0)
       (\<lambda>loss_val.
     and_then optimizer_step (\<lambda>_.
     and_then zero_grad (\<lambda>_.
     and_then (train_state_step task_name) (\<lambda>_.
     and_then (\<lambda>s. lookup (task_steps (train_state s)) task_name s) (\<lambda>task_step.
     and_then (\<lambda>s. succeed (global_steps (train_state s)) s) (\<lambda>global_step.
     and_then (py_div loss_val (gradient_accumulation_steps task_specific_config)) (\<lambda>mean_loss.
     emit (WriteEntry ''loss_train''
       \<lparr>log_task = task_name, log_task_step = task_step, log_global_step = global_step,
        log_loss_val = mean_loss, log_rl_loss = None\<rparr>)))))))))))"

section \<open>ReptileRunner\<close>

text \<open>One inner round (lines 261-274): the sampled-task and accumulation loops, then \<open>inner_step()\<close>.\<close>

definition inner_round ::
  "container \<Rightarrow> task_name \<Rightarrow> task \<Rightarrow> int \<Rightarrow> int \<Rightarrow> real \<Rightarrow> real action" where
  "inner_round c task_name tsk gas num_sampled_tasks loss_val =
     and_then (for_range (nat num_sampled_tasks)
                 (for_range (nat gas) (micro_batch c task_name tsk gas)) loss_val) (\<lambda>loss_val'.
     and_then (emit InnerStep) (\<lambda>_.
     succeed loss_val'))"

text \<open>\<open>ReptileRunner.run_train_step\<close> (lines 252-292).\<close>

definition run_train_step_reptile :: "container \<Rightarrow> int \<Rightarrow> int \<Rightarrow> unit action" where
  "run_train_step_reptile c inner_steps num_sampled_tasks =
     and_then (emit ModelTrain) (\<lambda>_.
     and_then sampler_pop (\<lambda>(task_name, tsk).
     and_then (lookup (task_specific_configs c) task_name) (\<lambda>task_specific_config.
     and_then (emit InnerBegin) (\<lambda>_.
     and_then (for_range (nat inner_steps)
                 (inner_round c task_name tsk (gradient_accumulation_steps task_specific_config)
                    num_sampled_tasks) 0)
       (\<lambda>loss_val.
     and_then (emit InnerEnd) (\<lambda>_.
     and_then optimizer_step (\<lambda>_.
     and_then zero_grad (\<lambda>_.
     and_then (train_state_step task_name) (\<lambda>_.
     and_then (\<lambda>s. lookup (task_steps (train_state s)) task_name s) (\<lambda>task_step.
     and_then (\<lambda>s. succeed (global_steps (train_state s)) s) (\<lambda>global_step.
     and_then (py_div loss_val (gradient_accumulation_steps task_specific_config)) (\<lambda>l1.
     and_then (py_div l1 num_sampled_tasks) (\<lambda>l2.
     and_then (py_div l2 inner_steps) (\<lambda>l3.
     emit (WriteEntry ''loss_train''
       \<lparr>log_task = task_name, log_task_step = task_step, log_global_step = global_step,
        log_loss_val = l3, log_rl_loss = None\<rparr>)))))))))))))))"

section \<open>DDSRunner\<close>

text \<open>
  The runner's parameters. \<open>weighted_mean w l\<close> is torch's \<open>(weights * loss).mean()\<close> on
  the weighting model's logits and the unreduced loss: tensor arithmetic of the library,
  taken as a parameter. The scalar weight \<open>1.0\<close> of the target task is the list \<open>[1]\<close>.
\<close>

record dds_params =
  dds_update_freq :: int
  dds_update_steps :: int
  dds_target_task :: task_name
  weighted_mean :: "real list \<Rightarrow> real list \<Rightarrow> real"

text \<open>\<open>self.jiant_model.dds_weights_forward(batch).logits\<close>, as a list of floats.\<close>

definition dds_weights_forward :: "batch \<Rightarrow> real list action" where
  "dds_weights_forward b s =
     (Inr (dds_weight_logits s 0),
      s\<lparr>dds_weight_logits := shift 1 (dds_weight_logits s), trace := trace s @ [WeightsForward]\<rparr>)"

text \<open>
  The body of the loop of \<open>run_one_batch\<close> (lines 414-441). The loop variables are the
  last batch (unbound before the first round), \<open>example_ids\<close>, \<open>dds_weights\<close>, \<open>loss_val\<close>.
\<close>

type_synonym one_batch_acc = "batch option \<times> int list \<times> real list \<times> real"

definition run_one_batch_body ::
  "container \<Rightarrow> dds_params \<Rightarrow> task_name \<Rightarrow> task \<Rightarrow> bool \<Rightarrow> int \<Rightarrow> one_batch_acc
     \<Rightarrow> one_batch_acc action" where
  "run_one_batch_body c p task_name tsk is_target_task gas acc =
     (case acc of (last_batch, example_ids, dds_weights, loss_val) \<Rightarrow>
     and_then (dataloader_pop task_name) (\<lambda>(b, batch_metadata).
     and_then (wrap_jiant_forward b tsk True) (\<lambda>out.
     if loss_shape out \<noteq> [batch_len b] then raise AssertionError
     else
     and_then (if \<not> is_target_task
               then and_then (dds_weights_forward b) (\<lambda>w.
                    succeed (weighted_mean p w (unreduced out), dds_weights @ w))
               else succeed (weighted_mean p [1] (unreduced out),
                             dds_weights @ replicate (batch_len b) 1))
       (\<lambda>(l, dds_weights').
     and_then (complex_backpropagate c l gas) (\<lambda>l'.
     succeed (Some b, example_ids @ example_id batch_metadata, dds_weights', loss_val + l'))))))"

text \<open>
  \<open>DDSRunner.run_one_batch\<close> (lines 404-445). With no round of the loop, \<open>batch\<close> is
  unbound at the \<open>return\<close>.
\<close>

definition run_one_batch ::
  "container \<Rightarrow> dds_params \<Rightarrow> task_name \<Rightarrow> task \<Rightarrow> bool
     \<Rightarrow> (batch \<times> int list \<times> real list \<times> real) action" where
  "run_one_batch c p task_name tsk is_target_task =
     and_then (lookup (task_specific_configs c) task_name) (\<lambda>task_specific_config.
     (let gas = (if is_target_task then 1
                 else gradient_accumulation_steps task_specific_config) in
     and_then (emit WeightingEval) (\<lambda>_.
     and_then (for_range (nat gas) (run_one_batch_body c p task_name tsk is_target_task gas)
                 (None, [], [], 0))
       (\<lambda>(last_batch, example_ids, dds_weights, loss_val).
     case last_batch of
       None \<Rightarrow> raise (UnboundLocalError ''batch'')
     | Some b \<Rightarrow> succeed (b, example_ids, dds_weights, loss_val)))))"

text \<open>
  \<open>DDSOptimizer.step\<close> (lines 305-314). The rewards are label ids, which carry no
  gradient, so the \<open>assert\<close> passes. Its optimizer is built over all the model's parameters.
\<close>

definition dds_optimizer_step :: "batch \<Rightarrow> real list \<Rightarrow> real action" where
  "dds_optimizer_step b rewards s =
     (Inr (rl_losses s 0),
      s\<lparr>rl_losses := shift 1 (rl_losses s),
        grads := [],
        weights := weights s @ [grads s @ [RLGrad (rl_losses s 0)]],
        trace := trace s @ [WeightingTrain, WeightsForward, DDSOptStep, DDSZeroGrad]\<rparr>)"

text \<open>
  \<open>while True: ... if task_name != self.target_task: break\<close> (lines 450-456).
  (\<open>sampler_pop\<close> has no raising branch, so the first case below never applies.)
\<close>

partial_function (option) sample_non_target ::
  "task_name \<Rightarrow> state \<Rightarrow> ((task_name \<times> task) \<times> state) option" where
  "sample_non_target target s =
     (case sampler_pop s of
        (Inl e, s') \<Rightarrow> None
      | (Inr (task_name, tsk), s') \<Rightarrow>
          if task_name \<noteq> target then Some ((task_name, tsk), s')
          else sample_non_target target s')"

text \<open>One round of the periodic update (lines 477-494).\<close>

definition dds_update_round ::
  "container \<Rightarrow> dds_params \<Rightarrow> batch \<Rightarrow> (real list \<times> real) option
     \<Rightarrow> (real list \<times> real) option action" where
  "dds_update_round c p b bound =
     and_then (lookup (map_of (sampler_task_dict c)) (dds_target_task p)) (\<lambda>target.
     and_then (run_one_batch c p (dds_target_task p) target True) (\<lambda>_.
     and_then (emit (GetSharedGrad True)) (\<lambda>_.
     and_then zero_grad (\<lambda>_.
     and_then (dds_optimizer_step b (label_id b)) (\<lambda>rl_loss.
     succeed (Some (label_id b, rl_loss)))))))"

text \<open>\<open>log_dds_details\<close> (lines 334-342): one line appended to \<open>dds_details_logs.jsonl\<close>.\<close>

definition log_dds_details ::
  "task_name \<Rightarrow> int \<Rightarrow> int list \<Rightarrow> real list \<Rightarrow> real list \<Rightarrow> real \<Rightarrow> unit action" where
  "log_dds_details task_name g example_ids rewards dds_weights rl_loss =
     emit (LogDDSDetails
       \<lparr>dd_task_name = task_name, dd_global_steps = g, dd_example_ids = example_ids,
        dd_rewards = rewards, dd_dds_weights = dds_weights, dd_rl_loss = rl_loss\<rparr>)"

text \<open>
  \<open>DDSRunner.run_train_step\<close> from line 458 on, for the task the sampling loop drew.
  \<open>rewards\<close> and \<open>rl_loss\<close> are bound only by a round of the periodic update:
  \<open>None\<close> is the unbound local.
\<close>

definition dds_main_step ::
  "container \<Rightarrow> dds_params \<Rightarrow> task_name \<Rightarrow> task
     \<Rightarrow> (task_specific_config \<times> batch \<times> int list \<times> real list \<times> real) action" where
  "dds_main_step c p task_name tsk =
     and_then (lookup (task_specific_configs c) task_name) (\<lambda>task_specific_config.
     and_then (run_one_batch c p task_name tsk False) (\<lambda>(b, example_ids, dds_weights, loss_val).
     if batch_len b \<noteq> length example_ids then raise AssertionError
     else
     and_then (emit (GetSharedGrad True)) (\<lambda>_.
     and_then optimizer_step (\<lambda>_.
     and_then zero_grad (\<lambda>_.
     and_then (train_state_step task_name) (\<lambda>_.
     succeed (task_specific_config, b, example_ids, dds_weights, loss_val)))))))"

text \<open>
  The periodic update (lines 474-494): \<open>%\<close> by zero raises; off the period nothing is bound.
\<close>

definition dds_periodic_update ::
  "container \<Rightarrow> dds_params \<Rightarrow> batch \<Rightarrow> (real list \<times> real) option action" where
  "dds_periodic_update c p b s =
     (if dds_update_freq p = 0 then raise ZeroDivisionError s
      else if global_steps (train_state s) mod dds_update_freq p = 0
      then for_range (nat (dds_update_steps p)) (dds_update_round c p b) None s
      else succeed None s)"

text \<open>
  The end of the step (lines 496-508): line 496 reads \<open>rewards\<close> before anything is logged.
\<close>

definition dds_log_step ::
  "task_name \<Rightarrow> task_specific_config \<Rightarrow> int list \<Rightarrow> real list \<Rightarrow> real
     \<Rightarrow> (real list \<times> real) option \<Rightarrow> unit action" where
  "dds_log_step task_name task_specific_config example_ids dds_weights loss_val bound =
     (case bound of
        None \<Rightarrow> raise (UnboundLocalError ''rewards'')
      | Some (rewards, rl_loss) \<Rightarrow>
          and_then (\<lambda>s. log_dds_details task_name (global_steps (train_state s)) example_ids
                          rewards dds_weights rl_loss s) (\<lambda>_.
          and_then (\<lambda>s. lookup (task_steps (train_state s)) task_name s) (\<lambda>task_step.
          and_then (\<lambda>s. succeed (global_steps (train_state s)) s) (\<lambda>global_step.
          and_then (py_div loss_val (gradient_accumulation_steps task_specific_config))
            (\<lambda>mean_loss.
          emit (WriteEntry ''loss_train''
            \<lparr>log_task = task_name, log_task_step = task_step, log_global_step = global_step,
             log_loss_val = mean_loss, log_rl_loss = Some rl_loss\<rparr>))))))"

definition dds_after_sampling :: "container \<Rightarrow> dds_params \<Rightarrow> task_name \<Rightarrow> task \<Rightarrow> unit action" where
  "dds_after_sampling c p task_name tsk =
     and_then (dds_main_step c p task_name tsk)
       (\<lambda>(task_specific_config, b, example_ids, dds_weights, loss_val).
     and_then (dds_periodic_update c p b) (\<lambda>bound.
     dds_log_step task_name task_specific_config example_ids dds_weights loss_val bound))"

text \<open>
  \<open>DDSRunner.run_train_step\<close> (lines 447-508). \<open>None\<close>: the sampling loop never leaves.
\<close>

definition run_train_step_dds ::
  "container \<Rightarrow> dds_params \<Rightarrow> state \<Rightarrow> ((error + unit) \<times> state) option" where
  "run_train_step_dds c p s =
     (case sample_non_target (dds_target_task p) (s\<lparr>trace := trace s @ [ModelTrain]\<rparr>) of
        None \<Rightarrow> None
      | Some ((task_name, tsk), s') \<Rightarrow> Some (dds_after_sampling c p task_name tsk s'))"

section \<open>MultiDDSRunner\<close>

record multidds_params =
  sampler_update_freq :: int
  mdds_target_task :: task_name
  accumulate_target_grad :: bool

text \<open>\<open>for x in xs: acc = body(x, acc)\<close>; an exception leaves the loop.\<close>

fun for_each :: "'x list \<Rightarrow> ('x \<Rightarrow> 'a \<Rightarrow> 'a action) \<Rightarrow> 'a \<Rightarrow> 'a action" where
  "for_each [] body acc s = (Inr acc, s)"
| "for_each (x # xs) body acc s =
     (case body x acc s of
        (Inl e, s') \<Rightarrow> (Inl e, s')
      | (Inr acc', s') \<Rightarrow> for_each xs body acc' s')"

text \<open>The nested \<open>run_one_batch\<close> of \<open>MultiDDSRunner.run_train_step\<close> (lines 549-563).\<close>

definition mdds_run_one_batch :: "container \<Rightarrow> task_name \<Rightarrow> task \<Rightarrow> real action" where
  "mdds_run_one_batch c task_name tsk =
     and_then (lookup (task_specific_configs c) task_name) (\<lambda>task_specific_config.
     for_range (nat (gradient_accumulation_steps task_specific_config))
       (micro_batch c task_name tsk (gradient_accumulation_steps task_specific_config)) 0)"

text \<open>
  One probe (lines 590-595). The loop rebinds the step's \<open>task_name\<close>: the accumulator is
  the name last bound and the number of similarities appended to \<open>task_grad_sim\<close>.
\<close>

definition probe :: "container \<Rightarrow> task_name \<times> task \<Rightarrow> task_name \<times> nat \<Rightarrow> (task_name \<times> nat) action" where
  "probe c named acc =
     (case named of (task_name, tsk) \<Rightarrow>
     and_then (mdds_run_one_batch c task_name tsk) (\<lambda>_.
     and_then (emit (GetSharedGrad False)) (\<lambda>_.
     and_then (emit GradSim) (\<lambda>_.
     and_then zero_grad (\<lambda>_.
     succeed (task_name, Suc (snd acc)))))))"

text \<open>
  The sampler update (lines 571-598). The accumulated target gradient is private to the
  runner and read by \<open>grad_sim\<close> only; \<open>torch.stack\<close> of no similarity fails.
  The result is the name \<open>task_name\<close> is bound to afterwards.
\<close>

definition sampler_update :: "container \<Rightarrow> multidds_params \<Rightarrow> task_name \<Rightarrow> task_name action" where
  "sampler_update c p task_name =
     and_then (lookup (map_of (sampler_task_dict c)) (mdds_target_task p)) (\<lambda>target.
     and_then (mdds_run_one_batch c (mdds_target_task p) target) (\<lambda>_.
     and_then (emit (GetSharedGrad True)) (\<lambda>_.
     and_then zero_grad (\<lambda>_.
     and_then (for_each (sampler_task_dict c) (probe c) (task_name, 0)) (\<lambda>(task_name', n).
     if n = 0 then raise RuntimeError
     else
     and_then (emit UpdateSampler) (\<lambda>_.
     and_then (\<lambda>s. emit (LogSamplingProbabilities task_name' (global_steps (train_state s))) s)
       (\<lambda>_.
     succeed task_name')))))))"

text \<open>\<open>MultiDDSRunner.run_train_step\<close> (lines 544-608).\<close>

definition run_train_step_multidds :: "container \<Rightarrow> multidds_params \<Rightarrow> unit action" where
  "run_train_step_multidds c p =
     and_then (emit ModelTrain) (\<lambda>_.
     and_then sampler_pop (\<lambda>(task_name, tsk).
     and_then (lookup (task_specific_configs c) task_name) (\<lambda>task_specific_config.
     and_then (mdds_run_one_batch c task_name tsk) (\<lambda>loss_val.
     and_then optimizer_step (\<lambda>_.
     and_then zero_grad (\<lambda>_.
     and_then (train_state_step task_name) (\<lambda>_.
     and_then (\<lambda>s. if sampler_update_freq p = 0 then raise ZeroDivisionError s
                    else if global_steps (train_state s) mod sampler_update_freq p = 0
                    then sampler_update c p task_name s
                    else succeed task_name s) (\<lambda>task_name'.
     and_then (\<lambda>s. lookup (task_steps (train_state s)) task_name' s) (\<lambda>task_step.
     and_then (\<lambda>s. succeed (global_steps (train_state s)) s) (\<lambda>global_step.
     and_then (py_div loss_val (gradient_accumulation_steps task_specific_config)) (\<lambda>mean_loss.
     emit (WriteEntry ''loss_train''
       \<lparr>log_task = task_name', log_task_step = task_step, log_global_step = global_step,
        log_loss_val = mean_loss, log_rl_loss = None\<rparr>))))))))))))"

section \<open>The training loop\<close>

text \<open>
  The runner classes whose \<open>run_train_step\<close> the loop can call. (\<open>DistillationRunner\<close> and
  \<open>L2TWWRunner\<close> are unfinished in the sources and are not modelled.)
\<close>

datatype runner =
    JiantRunner
  | ReptileRunner int int
  | DDSRunner dds_params
  | MultiDDSRunner multidds_params

fun run_train_step :: "runner \<Rightarrow> container \<Rightarrow> state \<Rightarrow> ((error + unit) \<times> state) option" where
  "run_train_step JiantRunner c s = Some (run_train_step_base c s)"
| "run_train_step (ReptileRunner inner_steps num_sampled_tasks) c s =
     Some (run_train_step_reptile c inner_steps num_sampled_tasks s)"
| "run_train_step (DDSRunner p) c s = run_train_step_dds c p s"
| "run_train_step (MultiDDSRunner p) c s = Some (run_train_step_multidds c p s)"

text \<open>\<open>get_train_dataloader_dict\<close> (lines 170-184).\<close>

definition add_train_dataloader ::
  "container \<Rightarrow> task_name \<Rightarrow> (task_name \<rightharpoonup> (batch \<times> batch_metadata) stream)
     \<Rightarrow> (task_name \<rightharpoonup> (batch \<times> batch_metadata) stream) action" where
  "add_train_dataloader c task_name d =
     and_then (lookup (task_dict c) task_name) (\<lambda>tsk.
     and_then (lookup (task_cache_train c) task_name) (\<lambda>train_cache.
     and_then (lookup (task_specific_configs c) task_name) (\<lambda>task_specific_config.
     succeed (d(task_name \<mapsto> train_cache)))))"

definition get_train_dataloader_dict ::
  "container \<Rightarrow> (task_name \<rightharpoonup> (batch \<times> batch_metadata) stream) action" where
  "get_train_dataloader_dict c = for_each (train_task_list c) (add_train_dataloader c) Map.empty"

text \<open>
  The generators \<open>run_train_context\<close> (lines 71-84) and \<open>resume_train_context\<close>
  (lines 86-99). A generator runs nothing before its first \<open>next\<close>; after a \<open>yield\<close> it
  holds the next value of the \<open>range\<close>; it is exhausted once the range ends or a step raises.
  The yielded object is the \<open>train_state\<close> of the state.
\<close>

datatype train_context =
    Fresh
  | Resumed TrainState
  | Suspended int
  | Exhausted

definition loop_head ::
  "runner \<Rightarrow> container \<Rightarrow> int \<Rightarrow> state \<Rightarrow> ((error + unit) \<times> train_context \<times> state) option" where
  "loop_head r c i s =
     (if i < max_steps c
      then (case run_train_step r c s of
              None \<Rightarrow> None
            | Some (Inl e, s') \<Rightarrow> Some (Inl e, Exhausted, s')
            | Some (Inr _, s') \<Rightarrow> Some (Inr (), Suspended (i + 1), s'))
      else Some (Inl StopIteration, Exhausted, s))"

fun context_next ::
  "runner \<Rightarrow> container \<Rightarrow> train_context \<Rightarrow> state
     \<Rightarrow> ((error + unit) \<times> train_context \<times> state) option" where
  "context_next r c Fresh s =
     (case get_train_dataloader_dict c s of
        (Inl e, s') \<Rightarrow> Some (Inl e, Exhausted, s')
      | (Inr d, s') \<Rightarrow>
          loop_head r c 0
            (s'\<lparr>train_dataloader_dict := d,
                train_state := from_task_name_list (train_task_list c)\<rparr>))"
| "context_next r c (Resumed ts) s =
     (case get_train_dataloader_dict c s of
        (Inl e, s') \<Rightarrow> Some (Inl e, Exhausted, s')
      | (Inr d, s') \<Rightarrow>
          loop_head r c (global_steps ts) (s'\<lparr>train_dataloader_dict := d, train_state := ts\<rparr>))"
| "context_next r c (Suspended i) s = loop_head r c i s"
| "context_next r c Exhausted s = Some (Inl StopIteration, Exhausted, s)"

text \<open>Advancing a generator \<open>n\<close> times.\<close>

fun advance ::
  "nat \<Rightarrow> runner \<Rightarrow> container \<Rightarrow> train_context \<Rightarrow> state
     \<Rightarrow> ((error + unit) \<times> train_context \<times> state) option" where
  "advance 0 r c g s = Some (Inr (), g, s)"
| "advance (Suc n) r c g s =
     (case context_next r c g s of
        None \<Rightarrow> None
      | Some (Inl e, g', s') \<Rightarrow> Some (Inl e, g', s')
      | Some (Inr _, g', s') \<Rightarrow> advance n r c g' s')"

text \<open>How many values a generator can still yield, at most.\<close>

fun remaining :: "container \<Rightarrow> train_context \<Rightarrow> nat" where
  "remaining c Fresh = nat (max_steps c) + 2"
| "remaining c (Resumed ts) = nat (max_steps c - global_steps ts) + 2"
| "remaining c (Suspended i) = nat (max_steps c - i) + 1"
| "remaining c Exhausted = 0"

text \<open>
  \<open>for _ in generator: pass\<close>, as in \<open>run_train\<close> (lines 67-69): \<open>StopIteration\<close> ends
  the loop, any other exception leaves it.
\<close>

function consume ::
  "runner \<Rightarrow> container \<Rightarrow> train_context \<Rightarrow> state \<Rightarrow> ((error + unit) \<times> state) option" where
  "consume r c g s =
     (case context_next r c g s of
        None \<Rightarrow> None
      | Some (Inl e, g', s') \<Rightarrow>
          if e = StopIteration then Some (Inr (), s') else Some (Inl e, s')
      | Some (Inr _, g', s') \<Rightarrow> consume r c g' s')"
  by pat_completeness auto
termination
  by (relation "measure (\<lambda>(r, c, g, s). remaining c g)")
     (auto elim!: context_next.elims simp: loop_head_def
        split: if_splits option.splits sum.splits prod.splits)

definition run_train :: "runner \<Rightarrow> container \<Rightarrow> state \<Rightarrow> ((error + unit) \<times> state) option" where
  "run_train r c s = consume r c Fresh s"

section \<open>Evaluation\<close>

type_synonym accumulator = "(real list \<times> real \<times> batch \<times> batch_metadata) list"

text \<open>The evaluation scheme of a task, an external capability.\<close>

record evaluation_scheme =
  compute_metrics_from_accumulator :: "accumulator \<Rightarrow> int list \<Rightarrow> (string \<times> real) list"
  get_preds_from_accumulator :: "accumulator \<Rightarrow> int list"

record val_output =
  out_accumulator :: accumulator
  out_loss :: real
  out_metrics :: "(string \<times> real) list"
  out_preds :: "int list option"

text \<open>
  The body of the loop of \<open>run_val\<close> (lines 872-892). The loop variables are
  \<open>total_eval_loss\<close>, \<open>nb_eval_steps\<close>, \<open>nb_eval_examples\<close> and the accumulator.
\<close>

definition run_val_body ::
  "task \<Rightarrow> batch \<times> batch_metadata \<Rightarrow> real \<times> int \<times> int \<times> accumulator
     \<Rightarrow> (real \<times> int \<times> int \<times> accumulator) action" where
  "run_val_body tsk item acc =
     (case item of (b, batch_metadata) \<Rightarrow>
      case acc of (total_eval_loss, nb_eval_steps, nb_eval_examples, eval_accumulator) \<Rightarrow>
     and_then (wrap_jiant_forward b tsk False) (\<lambda>out.
     and_then (emit (AccumulatorUpdate (loss out))) (\<lambda>_.
     succeed (total_eval_loss + loss out, nb_eval_steps + 1,
              nb_eval_examples + int (batch_len b),
              eval_accumulator @ [(logits out, loss out, b, batch_metadata)]))))"

text \<open>\<open>run_val\<close> (lines 851-910); \<open>None\<close> is the bare \<open>return\<close>.\<close>

definition run_val ::
  "evaluation_scheme \<Rightarrow> (batch \<times> batch_metadata) list \<Rightarrow> int list \<Rightarrow> task \<Rightarrow> int \<Rightarrow> bool
     \<Rightarrow> val_output option action" where
  "run_val evaluation_scheme val_dataloader val_labels tsk local_rank return_preds =
     (if \<not> local_rank = - 1 then succeed None
      else
     and_then (emit ModelEval) (\<lambda>_.
     and_then (for_each val_dataloader (run_val_body tsk) (0, 0, 0, []))
       (\<lambda>(total_eval_loss, nb_eval_steps, nb_eval_examples, eval_accumulator).
     and_then (py_div total_eval_loss nb_eval_steps) (\<lambda>eval_loss.
     succeed (Some
       \<lparr>out_accumulator = eval_accumulator,
        out_loss = eval_loss,
        out_metrics = compute_metrics_from_accumulator evaluation_scheme eval_accumulator val_labels,
        out_preds = (if return_preds
                     then Some (get_preds_from_accumulator evaluation_scheme eval_accumulator)
                     else None)\<rparr>)))))"

section \<open>Vocabulary of the statements\<close>

text \<open>The first \<open>n\<close> results a collaborator will return.\<close>

definition stake :: "nat \<Rightarrow> 'a stream \<Rightarrow> 'a list" where
  "stake n f = map f [0..<n]"

text \<open>The calls of a run of micro-batches on the model outputs \<open>outs\<close>, and the loss it sums.\<close>

definition micro_batch_events :: "task_name \<Rightarrow> task \<Rightarrow> int \<Rightarrow> model_output list \<Rightarrow> event list" where
  "micro_batch_events t tsk gas outs =
     concat (map (\<lambda>out. [StreamPop t, Forward tsk False, Backprop (loss out) gas]) outs)"

definition loss_sum :: "container \<Rightarrow> int \<Rightarrow> model_output list \<Rightarrow> real" where
  "loss_sum c gas outs = sum_list (map (\<lambda>out. rescaled_loss c (loss out) gas) outs)"

text \<open>A two-task container and a start state, for concrete runs.\<close>

definition example_stream :: "(batch \<times> batch_metadata) stream" where
  "example_stream = (\<lambda>n. (\<lparr>batch_len = 2, label_id = [0, 1]\<rparr>, \<lparr>example_id = [int n, int n + 1]\<rparr>))"

definition example_container :: container where
  "example_container =
     \<lparr>train_task_list = [''rte'', ''mnli''],
      max_steps = 2,
      task_dict = [''rte'' \<mapsto> Task ''rte'', ''mnli'' \<mapsto> Task ''mnli''],
      task_specific_configs =
        [''rte'' \<mapsto> \<lparr>gradient_accumulation_steps = 2, train_batch_size = 2\<rparr>,
         ''mnli'' \<mapsto> \<lparr>gradient_accumulation_steps = 1, train_batch_size = 2\<rparr>],
      task_cache_train = [''rte'' \<mapsto> example_stream, ''mnli'' \<mapsto> example_stream],
      sampler_task_dict = [(''rte'', Task ''rte''), (''mnli'', Task ''mnli'')],
      rescaled_loss = (\<lambda>l gas. l / real_of_int gas)\<rparr>"

definition example_state :: state where
  "example_state =
     \<lparr>train_state = from_task_name_list [''rte'', ''mnli''],
      train_dataloader_dict = [''rte'' \<mapsto> example_stream, ''mnli'' \<mapsto> example_stream],
      task_sampler = (\<lambda>n. (''rte'', Task ''rte'')),
      model_outputs = (\<lambda>n. \<lparr>loss = 4, loss_shape = [2], unreduced = [3, 5], logits = [1, 0]\<rparr>),
      dds_weight_logits = (\<lambda>n. [1, 1]),
      rl_losses = (\<lambda>n. 1),
      grads = [],
      weights = [],
      trace = []\<rparr>"

text \<open>
  Proof vocabulary: an action is \<open>quiet\<close> when it leaves the train state alone and never
  raises \<open>StopIteration\<close>; it is \<open>advancing\<close> when, if it returns, it has called
  \<open>TrainState.step\<close> exactly once.
\<close>

definition quiet :: "'a action \<Rightarrow> bool" where
  "quiet m \<longleftrightarrow> (\<forall>s r s'. m s = (r, s') \<longrightarrow> train_state s' = train_state s \<and> r \<noteq> Inl StopIteration)"

definition advancing :: "'a action \<Rightarrow> bool" where
  "advancing m \<longleftrightarrow>
     (\<forall>s r s'. m s = (r, s') \<longrightarrow> r \<noteq> Inl StopIteration \<and>
        (\<forall>x. r = Inr x \<longrightarrow> (\<exists>t. step (train_state s) t = Inr (train_state s'))))"

named_theorems quiet_intros

text \<open>No entry of \<open>task_steps\<close> is lost or decreases from \<open>ts\<close> to \<open>ts'\<close>.\<close>

definition task_steps_le :: "TrainState \<Rightarrow> TrainState \<Rightarrow> bool" where
  "task_steps_le ts ts' \<longleftrightarrow>
     (\<forall>t k. task_steps ts t = Some k \<longrightarrow> (\<exists>k'. task_steps ts' t = Some k' \<and> k \<le> k'))"

text \<open>
  A run the base runner cannot fail on: every training task has a task object, a train cache
  and a configuration with a non-zero accumulation factor, and the sampler draws training
  tasks only. \<open>base_ready\<close> adds that the streams and the train state track these tasks.
\<close>

definition tasks_configured :: "container \<Rightarrow> bool" where
  "tasks_configured c \<longleftrightarrow>
     (\<forall>t \<in> set (train_task_list c).
        t \<in> dom (task_dict c) \<and> t \<in> dom (task_cache_train c) \<and>
        (\<exists>cfg. task_specific_configs c t = Some cfg \<and> gradient_accumulation_steps cfg \<noteq> 0))"

definition samples_train_tasks :: "container \<Rightarrow> state \<Rightarrow> bool" where
  "samples_train_tasks c s \<longleftrightarrow> (\<forall>n. fst (task_sampler s n) \<in> set (train_task_list c))"

definition base_ready :: "container \<Rightarrow> state \<Rightarrow> bool" where
  "base_ready c s \<longleftrightarrow>
     tasks_configured c \<and> samples_train_tasks c s \<and>
     dom (train_dataloader_dict s) = set (train_task_list c) \<and>
     dom (task_steps (train_state s)) = set (train_task_list c)"

text \<open>A train state restored after the first step of a run.\<close>

definition example_restored :: TrainState where
  "example_restored = \<lparr>global_steps = 1, task_steps = [''rte'' \<mapsto> 1, ''mnli'' \<mapsto> 0]\<rparr>"

text \<open>
  The mean the spec sets \<open>run_val\<close> apart from: per-batch mean losses weighted by batch
  size, for batches given as (size, mean loss).
\<close>

definition size_weighted_mean :: "(nat \<times> real) list \<Rightarrow> real" where
  "size_weighted_mean sized =
     sum_list (map (\<lambda>(n, l). real n * l) sized) / real (sum_list (map fst sized))"

text \<open>An evaluation stream of two batches of sizes 1 and 3, with mean losses 1 and 5.\<close>

definition example_val_dataloader :: "(batch \<times> batch_metadata) list" where
  "example_val_dataloader =
     [(\<lparr>batch_len = 1, label_id = [0]\<rparr>, \<lparr>example_id = [0]\<rparr>),
      (\<lparr>batch_len = 3, label_id = [1, 0, 1]\<rparr>, \<lparr>example_id = [1, 2, 3]\<rparr>)]"

definition example_val_state :: state where
  "example_val_state =
     example_state\<lparr>model_outputs :=
       (\<lambda>n. \<lparr>loss = (if n = 0 then 1 else 5), loss_shape = [], unreduced = [], logits = []\<rparr>)\<rparr>"

definition example_scheme :: evaluation_scheme where
  "example_scheme =
     \<lparr>compute_metrics_from_accumulator = (\<lambda>acc labels. [(''acc'', 1)]),
      get_preds_from_accumulator = (\<lambda>acc. [])\<rparr>"

text \<open>
  The calls of an inner loop of \<open>i\<close> rounds of \<open>m\<close> micro-batches each, every round closed by
  \<open>inner_step()\<close>, and the calls on the optimizer-scheduler among the events.
\<close>

fun inner_loop_events ::
  "nat \<Rightarrow> nat \<Rightarrow> task_name \<Rightarrow> task \<Rightarrow> int \<Rightarrow> model_output stream \<Rightarrow> event list" where
  "inner_loop_events 0 m t tsk gas outs = []"
| "inner_loop_events (Suc i) m t tsk gas outs =
     micro_batch_events t tsk gas (stake m outs) @ [InnerStep] @
     inner_loop_events i m t tsk gas (shift m outs)"

definition optimizer_call :: "event \<Rightarrow> bool" where
  "optimizer_call e \<longleftrightarrow> e \<in> {InnerBegin, InnerStep, InnerEnd, OptStep, ZeroGrad}"

text \<open>
  Proof vocabulary for traces: \<open>emits_only P m\<close> when every event \<open>m\<close> appends satisfies \<open>P\<close>,
  whatever \<open>m\<close> returns; the two log sinks; the calls of \<open>complex_backpropagate\<close>.
  \<open>steps_last m\<close>: \<open>m\<close> calls \<open>TrainState.step\<close> once if it returns and not at all if it raises.
\<close>

definition emits_only :: "(event \<Rightarrow> bool) \<Rightarrow> 'a action \<Rightarrow> bool" where
  "emits_only P m \<longleftrightarrow>
     (\<forall>s r s'. m s = (r, s') \<longrightarrow> (\<exists>evs. trace s' = trace s @ evs \<and> (\<forall>e \<in> set evs. P e)))"

definition is_log :: "event \<Rightarrow> bool" where
  "is_log e = (case e of LogDDSDetails d \<Rightarrow> True | WriteEntry k r \<Rightarrow> True | _ \<Rightarrow> False)"

definition is_backprop :: "event \<Rightarrow> bool" where
  "is_backprop e = (case e of Backprop l gas \<Rightarrow> True | _ \<Rightarrow> False)"

definition steps_last :: "'a action \<Rightarrow> bool" where
  "steps_last m \<longleftrightarrow>
     (\<forall>s r s'. m s = (r, s') \<longrightarrow>
        (case r of
           Inl e \<Rightarrow> train_state s' = train_state s
         | Inr x \<Rightarrow> (\<exists>t. step (train_state s) t = Inr (train_state s'))))"

text \<open>
  A DDS run: the weighting model is updated every second step, the target task is
  \<open>rte\<close>, and the sampler draws the target first and \<open>mnli\<close> from then on. In the second
  state the model returns a loss of three entries for batches of two examples; in the
  third it does so from the second forward pass on.
\<close>

definition example_dds_params :: dds_params where
  "example_dds_params =
     \<lparr>dds_update_freq = 2, dds_update_steps = 1, dds_target_task = ''rte'',
      weighted_mean = (\<lambda>w l. sum_list (map2 (*) w l) / real (length l))\<rparr>"

definition example_dds_state :: state where
  "example_dds_state =
     example_state\<lparr>task_sampler :=
       (\<lambda>n. if n = 0 then (''rte'', Task ''rte'') else (''mnli'', Task ''mnli''))\<rparr>"

text \<open>The same run with the weighting model updated at every step.\<close>

definition example_dds_every_step :: dds_params where
  "example_dds_every_step = example_dds_params\<lparr>dds_update_freq := 1\<rparr>"

definition example_mismatch_state :: state where
  "example_mismatch_state =
     example_state\<lparr>model_outputs :=
       (\<lambda>n. \<lparr>loss = 4, loss_shape = [3], unreduced = [3, 5, 1], logits = []\<rparr>)\<rparr>"

definition example_late_mismatch_state :: state where
  "example_late_mismatch_state =
     example_state\<lparr>model_outputs :=
       (\<lambda>n. \<lparr>loss = 4, loss_shape = [if n = 0 then 2 else 3], unreduced = [3, 5],
              logits = []\<rparr>)\<rparr>"

text \<open>
  A DDS run whose target task is \<open>mnli\<close>: the sampler's \<open>rte\<close>, with two micro-batches to a
  step, is then the main task.
\<close>

definition example_mnli_target_params :: dds_params where
  "example_mnli_target_params = example_dds_params\<lparr>dds_target_task := ''mnli''\<rparr>"

named_theorems emits_intros

text \<open>
  The calls that touch the gradient buffers or the weights, in the order of a trace:
  a backward pass, an optimizer step, \<open>zero_grad\<close>, a read by \<open>get_shared_grad\<close>.
  A probe of task \<open>t\<close> is its accumulation group of backward passes, one read, one
  \<open>zero_grad\<close>.
\<close>

datatype grad_call = Backward | Step | Zero | Read

fun grad_call_of :: "event \<Rightarrow> grad_call option" where
  "grad_call_of (Backprop l gas) = Some Backward"
| "grad_call_of OptStep = Some Step"
| "grad_call_of ZeroGrad = Some Zero"
| "grad_call_of (GetSharedGrad copy) = Some Read"
| "grad_call_of e = None"

definition grad_calls :: "event list \<Rightarrow> grad_call list" where
  "grad_calls evs = List.map_filter grad_call_of evs"

definition accumulation :: "container \<Rightarrow> task_name \<Rightarrow> nat" where
  "accumulation c t =
     (case task_specific_configs c t of
        None \<Rightarrow> 0
      | Some cfg \<Rightarrow> nat (gradient_accumulation_steps cfg))"

definition probe_calls :: "container \<Rightarrow> task_name \<Rightarrow> grad_call list" where
  "probe_calls c t = replicate (accumulation c t) Backward @ [Read, Zero]"

text \<open>
  A sampler update that cannot fail: the sampler knows some task, among them the target
  task, and each has a configuration and a train stream.
\<close>

definition probes_configured :: "container \<Rightarrow> multidds_params \<Rightarrow> state \<Rightarrow> bool" where
  "probes_configured c p s \<longleftrightarrow>
     sampler_task_dict c \<noteq> [] \<and>
     mdds_target_task p \<in> fst ` set (sampler_task_dict c) \<and>
     (\<forall>(t, tsk) \<in> set (sampler_task_dict c).
        t \<in> dom (task_specific_configs c) \<and> t \<in> dom (train_dataloader_dict s))"

text \<open>A MultiDDS run that updates the sampler at every step, with target \<open>mnli\<close>.\<close>

definition example_multidds_params :: multidds_params where
  "example_multidds_params =
     \<lparr>sampler_update_freq = 1, mdds_target_task = ''mnli'', accumulate_target_grad = False\<rparr>"

section \<open>Streams and loops\<close>

lemma stake_0: "stake 0 f = []"
  by (simp add: stake_def)

lemma stake_Suc: "stake (Suc n) f = f 0 # stake n (shift 1 f)"
  unfolding stake_def shift_def
  by (simp add: upt_conv_Cons map_Suc_upt[symmetric] del: upt_Suc)

lemma stake_numeral: "stake (numeral k) f = f 0 # stake (pred_numeral k) (shift 1 f)"
  by (simp add: numeral_eq_Suc stake_Suc)

lemma length_stake: "length (stake n f) = n"
  by (simp add: stake_def)

lemma shift_shift: "shift n (shift m f) = shift (m + n) f"
  by (simp add: shift_def fun_eq_iff ac_simps)

lemma shift_0: "shift 0 f = f"
  by (simp add: shift_def)

lemma stake_add: "stake (m + n) f = stake m f @ stake n (shift m f)"
proof (induction m arbitrary: f)
  case 0
  show ?case by (simp add: stake_0 shift_0)
next
  case (Suc m)
  show ?case by (simp add: stake_Suc Suc.IH shift_shift)
qed

lemma micro_batch_events_append:
  "micro_batch_events t tsk gas (xs @ ys) =
     micro_batch_events t tsk gas xs @ micro_batch_events t tsk gas ys"
  by (simp add: micro_batch_events_def)

lemma loss_sum_append: "loss_sum c gas (xs @ ys) = loss_sum c gas xs + loss_sum c gas ys"
  by (simp add: loss_sum_def)

section \<open>The micro-batch loop\<close>

lemma micro_batch_ok:
  assumes "train_dataloader_dict s t = Some st"
  shows "micro_batch c t tsk gas acc s =
    (Inr (acc + rescaled_loss c (loss (model_outputs s 0)) gas),
     s\<lparr>train_dataloader_dict := (train_dataloader_dict s)(t \<mapsto> shift 1 st),
       model_outputs := shift 1 (model_outputs s),
       grads := grads s @ [LossGrad (loss (model_outputs s 0)) gas],
       trace := trace s @ [StreamPop t, Forward tsk False, Backprop (loss (model_outputs s 0)) gas]\<rparr>)"
  using assms
  by (simp add: micro_batch_def and_then_def dataloader_pop_def wrap_jiant_forward_def
      complex_backpropagate_def succeed_def split: prod.splits)

lemma for_range_micro_batch:
  assumes "train_dataloader_dict s t = Some st"
  shows "for_range n (micro_batch c t tsk gas) acc s =
    (Inr (acc + loss_sum c gas (stake n (model_outputs s))),
     s\<lparr>train_dataloader_dict := (train_dataloader_dict s)(t \<mapsto> shift n st),
       model_outputs := shift n (model_outputs s),
       grads := grads s @ map (\<lambda>out. LossGrad (loss out) gas) (stake n (model_outputs s)),
       trace := trace s @ micro_batch_events t tsk gas (stake n (model_outputs s))\<rparr>)"
  using assms
proof (induction n arbitrary: acc s st)
  case 0
  then show ?case
    by (simp add: stake_0 shift_0 map_upd_triv loss_sum_def micro_batch_events_def)
next
  case (Suc n)
  let ?s1 = "s\<lparr>train_dataloader_dict := (train_dataloader_dict s)(t \<mapsto> shift 1 st),
       model_outputs := shift 1 (model_outputs s),
       grads := grads s @ [LossGrad (loss (model_outputs s 0)) gas],
       trace := trace s @ [StreamPop t, Forward tsk False, Backprop (loss (model_outputs s 0)) gas]\<rparr>"
  have dl: "train_dataloader_dict ?s1 t = Some (shift 1 st)" by simp
  have "for_range (Suc n) (micro_batch c t tsk gas) acc s =
        for_range n (micro_batch c t tsk gas)
          (acc + rescaled_loss c (loss (model_outputs s 0)) gas) ?s1"
    by (simp add: micro_batch_ok[OF Suc.prems])
  also note Suc.IH[OF dl]
  finally show ?case
    by (simp add: stake_Suc shift_shift add.assoc fun_upd_def loss_sum_def
        micro_batch_events_def cong: if_cong)
qed

lemma for_range_micro_batch_KeyError:
  assumes "train_dataloader_dict s t = None" "0 < n"
  shows "for_range n (micro_batch c t tsk gas) acc s = (Inl (KeyError t), s)"
proof -
  obtain m where n: "n = Suc m" using assms(2) by (cases n) auto
  show ?thesis
    using assms(1)
    by (simp add: n micro_batch_def and_then_def dataloader_pop_def)
qed

lemma for_range_micro_batch_cases:
  "for_range n (micro_batch c t tsk gas) acc s = (Inr x, s1) \<Longrightarrow>
     x = acc + loss_sum c gas (stake n (model_outputs s)) \<and>
     trace s1 = trace s @ micro_batch_events t tsk gas (stake n (model_outputs s)) \<and>
     grads s1 = grads s @ map (\<lambda>out. LossGrad (loss out) gas) (stake n (model_outputs s)) \<and>
     weights s1 = weights s \<and> train_state s1 = train_state s \<and>
     task_sampler s1 = task_sampler s \<and> model_outputs s1 = shift n (model_outputs s)"
proof (cases "train_dataloader_dict s t")
  case None
  assume a: "for_range n (micro_batch c t tsk gas) acc s = (Inr x, s1)"
  have "n = 0"
    using for_range_micro_batch_KeyError[OF None, of n c tsk gas acc] a by (cases n) auto
  with a show ?thesis by (simp add: stake_0 loss_sum_def micro_batch_events_def shift_0)
next
  case (Some st)
  assume a: "for_range n (micro_batch c t tsk gas) acc s = (Inr x, s1)"
  show ?thesis
    using a unfolding for_range_micro_batch[OF Some]
    by auto
qed

section \<open>The step of the base runner\<close>

lemma example_base_step:
  "\<exists>s'. run_train_step_base example_container example_state = (Inr (), s')"
  by (simp add: run_train_step_base_def and_then_def emit_def sampler_pop_def lookup_def
      succeed_def Let_def optimizer_step_def zero_grad_def train_state_step_def step_def
      py_div_def example_container_def example_state_def from_task_name_list_def
      for_range_micro_batch[where st=example_stream])

text \<open>
  C2: a call of the base runner's \<open>run_train_step\<close> that returns has made exactly these
  calls, in this order: one \<open>pop\<close> of the task sampler; for each of the
  \<open>gradient_accumulation_steps\<close> micro-batches one \<open>pop\<close> of the sampled task's stream, one
  forward pass and one \<open>complex_backpropagate\<close>; one optimizer step; one \<open>zero_grad\<close>; and
  one \<open>loss_train\<close> log record holding the task name, the task's step count and the global
  step count after the one advance of the train state, and the sum of the losses
  \<open>complex_backpropagate\<close> returned divided by \<open>gradient_accumulation_steps\<close>.
\<close>

theorem base_run_train_step_calls:
  assumes run: "run_train_step_base c s = (Inr u, s')"
    and drawn: "task_sampler s 0 = (t, tsk)"
  shows "\<exists>cfg k. task_specific_configs c t = Some cfg \<and>
           task_steps (train_state s) t = Some k \<and>
           gradient_accumulation_steps cfg \<noteq> 0 \<and>
           trace s' = trace s @ [ModelTrain, SamplerPop t] @
             micro_batch_events t tsk (gradient_accumulation_steps cfg)
               (stake (nat (gradient_accumulation_steps cfg)) (model_outputs s)) @
             [OptStep, ZeroGrad,
              WriteEntry ''loss_train''
                \<lparr>log_task = t, log_task_step = k + 1,
                 log_global_step = global_steps (train_state s) + 1,
                 log_loss_val =
                   loss_sum c (gradient_accumulation_steps cfg)
                     (stake (nat (gradient_accumulation_steps cfg)) (model_outputs s))
                   / real_of_int (gradient_accumulation_steps cfg),
                 log_rl_loss = None\<rparr>] \<and>
           train_state s' =
             \<lparr>global_steps = global_steps (train_state s) + 1,
              task_steps = (task_steps (train_state s))(t \<mapsto> k + 1)\<rparr>"
proof -
  let ?s1 = "s\<lparr>task_sampler := shift 1 (task_sampler s),
                 trace := trace s @ [ModelTrain, SamplerPop t]\<rparr>"
  obtain cfg where cfg: "task_specific_configs c t = Some cfg"
    using run drawn
    by (cases "task_specific_configs c t")
       (auto simp: run_train_step_base_def and_then_def emit_def sampler_pop_def lookup_def
          raise_def Let_def)
  let ?gas = "gradient_accumulation_steps cfg"
  obtain x s2 where loop: "for_range (nat ?gas) (micro_batch c t tsk ?gas) 0 ?s1 = (Inr x, s2)"
    using run drawn cfg
    by (cases "for_range (nat ?gas) (micro_batch c t tsk ?gas) 0 ?s1")
       (auto simp: run_train_step_base_def and_then_def emit_def sampler_pop_def lookup_def
          succeed_def Let_def split: sum.splits)
  note l = for_range_micro_batch_cases[OF loop]
  obtain k where k: "task_steps (train_state s) t = Some k"
    using run drawn cfg loop l
    by (cases "task_steps (train_state s) t")
       (auto simp: run_train_step_base_def and_then_def emit_def sampler_pop_def lookup_def
          succeed_def Let_def optimizer_step_def zero_grad_def train_state_step_def step_def)
  have gas: "?gas \<noteq> 0"
    using run drawn cfg loop l k
    by (auto simp: run_train_step_base_def and_then_def emit_def sampler_pop_def lookup_def
          succeed_def Let_def optimizer_step_def zero_grad_def train_state_step_def step_def
          py_div_def raise_def split: if_splits)
  show ?thesis
    using run drawn cfg loop l k gas
    by (auto simp: run_train_step_base_def and_then_def emit_def sampler_pop_def lookup_def
          succeed_def Let_def optimizer_step_def zero_grad_def train_state_step_def step_def
          py_div_def shift_def)
qed

theorem base_run_train_step_calls_witness:
  "\<exists>s'. run_train_step_base example_container example_state = (Inr (), s') \<and>
        task_sampler example_state 0 = (''rte'', Task ''rte'') \<and>
        trace s' =
          [ModelTrain, SamplerPop ''rte'',
           StreamPop ''rte'', Forward (Task ''rte'') False, Backprop 4 2,
           StreamPop ''rte'', Forward (Task ''rte'') False, Backprop 4 2,
           OptStep, ZeroGrad,
           WriteEntry ''loss_train''
             \<lparr>log_task = ''rte'', log_task_step = 1, log_global_step = 1, log_loss_val = 2,
              log_rl_loss = None\<rparr>]"
proof -
  obtain s' where run: "run_train_step_base example_container example_state = (Inr (), s')"
    using example_base_step by blast
  have drawn: "task_sampler example_state 0 = (''rte'', Task ''rte'')"
    by (simp add: example_state_def)
  from base_run_train_step_calls[OF run drawn] show ?thesis
    using run drawn
    by (auto simp: example_container_def example_state_def from_task_name_list_def
        micro_batch_events_def loss_sum_def stake_numeral stake_Suc stake_0 shift_def)
qed

section \<open>Every step advances the train state once\<close>

lemma quiet_succeed [quiet_intros]: "quiet (succeed x)"
  by (simp add: quiet_def succeed_def)

lemma quiet_raise [quiet_intros]: "e \<noteq> StopIteration \<Longrightarrow> quiet (raise e)"
  by (simp add: quiet_def raise_def)

lemma quiet_emit [quiet_intros]: "quiet (emit e)"
  by (auto simp: quiet_def emit_def)

lemma quiet_lookup [quiet_intros]: "quiet (lookup d k)"
  by (auto simp: quiet_def lookup_def raise_def succeed_def split: option.splits)

lemma quiet_py_div [quiet_intros]: "quiet (py_div x n)"
  by (auto simp: quiet_def py_div_def raise_def succeed_def)

lemma quiet_sampler_pop [quiet_intros]: "quiet sampler_pop"
  by (auto simp: quiet_def sampler_pop_def Let_def)

lemma quiet_dataloader_pop [quiet_intros]: "quiet (dataloader_pop t)"
  by (auto simp: quiet_def dataloader_pop_def split: option.splits)

lemma quiet_wrap_jiant_forward [quiet_intros]: "quiet (wrap_jiant_forward b t u)"
  by (auto simp: quiet_def wrap_jiant_forward_def)

lemma quiet_complex_backpropagate [quiet_intros]: "quiet (complex_backpropagate c l gas)"
  by (auto simp: quiet_def complex_backpropagate_def)

lemma quiet_optimizer_step [quiet_intros]: "quiet optimizer_step"
  by (auto simp: quiet_def optimizer_step_def)

lemma quiet_zero_grad [quiet_intros]: "quiet zero_grad"
  by (auto simp: quiet_def zero_grad_def)

lemma quiet_dds_weights_forward [quiet_intros]: "quiet (dds_weights_forward b)"
  by (auto simp: quiet_def dds_weights_forward_def)

lemma quiet_dds_optimizer_step [quiet_intros]: "quiet (dds_optimizer_step b rw)"
  by (auto simp: quiet_def dds_optimizer_step_def)

lemma quiet_and_then [quiet_intros]:
  "quiet m \<Longrightarrow> (\<And>x. quiet (f x)) \<Longrightarrow> quiet (and_then m f)"
  unfolding quiet_def and_then_def
  by (auto split: prod.splits sum.splits)

lemma quiet_if [quiet_intros]:
  "(b \<Longrightarrow> quiet m) \<Longrightarrow> (\<not> b \<Longrightarrow> quiet n) \<Longrightarrow> quiet (if b then m else n)"
  by simp

lemma quiet_case_prod [quiet_intros]:
  "(\<And>a b. quiet (f a b)) \<Longrightarrow> quiet (case p of (a, b) \<Rightarrow> f a b)"
  by (cases p) simp

lemma quiet_case_option [quiet_intros]:
  "quiet m \<Longrightarrow> (\<And>a. quiet (f a)) \<Longrightarrow> quiet (case x of None \<Rightarrow> m | Some a \<Rightarrow> f a)"
  by (cases x) simp_all

lemma quiet_let [quiet_intros]: "quiet (f x) \<Longrightarrow> quiet (let y = x in f y)"
  by simp

lemma quiet_for_range [quiet_intros]:
  assumes "\<And>a. quiet (body a)"
  shows "quiet (for_range n body acc)"
  unfolding quiet_def
proof (intro allI impI)
  fix s r s'
  assume "for_range n body acc s = (r, s')"
  then show "train_state s' = train_state s \<and> r \<noteq> Inl StopIteration"
  proof (induction n arbitrary: acc s)
    case 0
    then show ?case by auto
  next
    case (Suc n)
    obtain r1 s1 where b: "body acc s = (r1, s1)" by (cases "body acc s")
    with assms have q: "train_state s1 = train_state s" "r1 \<noteq> Inl StopIteration"
      by (auto simp: quiet_def)
    show ?case
    proof (cases r1)
      case (Inl e)
      with b q Suc.prems show ?thesis by auto
    next
      case (Inr a)
      with b Suc.prems have "for_range n body a s1 = (r, s')" by simp
      from Suc.IH[OF this] q show ?thesis by simp
    qed
  qed
qed

lemma quiet_for_each [quiet_intros]:
  assumes "\<And>x a. quiet (body x a)"
  shows "quiet (for_each xs body acc)"
  unfolding quiet_def
proof (intro allI impI)
  fix s r s'
  assume "for_each xs body acc s = (r, s')"
  then show "train_state s' = train_state s \<and> r \<noteq> Inl StopIteration"
  proof (induction xs arbitrary: acc s)
    case Nil
    then show ?case by auto
  next
    case (Cons x xs)
    obtain r1 s1 where b: "body x acc s = (r1, s1)" by (cases "body x acc s")
    with assms have q: "train_state s1 = train_state s" "r1 \<noteq> Inl StopIteration"
      by (auto simp: quiet_def)
    show ?case
    proof (cases r1)
      case (Inl e)
      with b q Cons.prems show ?thesis by auto
    next
      case (Inr a)
      with b Cons.prems have "for_each xs body a s1 = (r, s')" by simp
      from Cons.IH[OF this] q show ?thesis by simp
    qed
  qed
qed

lemma quiet_reading:
  "(\<And>s0. quiet (f s0)) \<Longrightarrow> quiet (\<lambda>s. f s s)"
  by (auto simp: quiet_def)

lemma quiet_micro_batch [quiet_intros]: "quiet (micro_batch c t tsk gas acc)"
  unfolding micro_batch_def by (intro quiet_intros)

lemma quiet_mdds_run_one_batch [quiet_intros]: "quiet (mdds_run_one_batch c t tsk)"
  unfolding mdds_run_one_batch_def by (intro quiet_intros)

lemma quiet_inner_round [quiet_intros]: "quiet (inner_round c t tsk gas n acc)"
  unfolding inner_round_def by (intro quiet_intros)

lemma quiet_run_one_batch_body [quiet_intros]: "quiet (run_one_batch_body c p t tsk tg gas acc)"
  unfolding run_one_batch_body_def by (intro quiet_intros) simp_all

lemma quiet_run_one_batch [quiet_intros]: "quiet (run_one_batch c p t tsk tg)"
  unfolding run_one_batch_def by (intro quiet_intros) simp_all

lemma advancing_step_then:
  "(\<And>x. quiet (f x)) \<Longrightarrow> advancing (and_then (train_state_step t) f)"
  unfolding quiet_def advancing_def and_then_def train_state_step_def step_def
  by (auto split: prod.splits sum.splits option.splits)

lemma advancing_after_quiet:
  "quiet m \<Longrightarrow> (\<And>x. advancing (f x)) \<Longrightarrow> advancing (and_then m f)"
  unfolding quiet_def advancing_def and_then_def
  by (auto split: prod.splits sum.splits) metis+

lemma advancing_then_quiet:
  "advancing m \<Longrightarrow> (\<And>x. quiet (f x)) \<Longrightarrow> advancing (and_then m f)"
  unfolding quiet_def advancing_def and_then_def
  by (auto split: prod.splits sum.splits)

lemma advancing_raise: "e \<noteq> StopIteration \<Longrightarrow> advancing (raise e)"
  by (simp add: advancing_def raise_def)

lemma advancing_if:
  "(b \<Longrightarrow> advancing m) \<Longrightarrow> (\<not> b \<Longrightarrow> advancing n) \<Longrightarrow> advancing (if b then m else n)"
  by simp

lemma advancing_case_prod:
  "(\<And>a b. advancing (f a b)) \<Longrightarrow> advancing (case p of (a, b) \<Rightarrow> f a b)"
  by (cases p) simp

lemmas advancing_intros =
  advancing_step_then advancing_after_quiet advancing_raise advancing_if advancing_case_prod

lemma quiet_read_task_step [quiet_intros]:
  "quiet (\<lambda>s. lookup (task_steps (train_state s)) t s)"
  by (rule quiet_reading) (rule quiet_lookup)

lemma quiet_read_global_step [quiet_intros]:
  "quiet (\<lambda>s. succeed (global_steps (train_state s)) s)"
  by (rule quiet_reading) (rule quiet_succeed)

lemma advancing_base: "advancing (run_train_step_base c)"
  unfolding run_train_step_base_def
  by (intro advancing_intros quiet_intros)

lemma advancing_reptile: "advancing (run_train_step_reptile c i n)"
  unfolding run_train_step_reptile_def
  by (intro advancing_intros quiet_intros)

lemma quiet_probe [quiet_intros]: "quiet (probe c named acc)"
  unfolding probe_def by (intro quiet_intros)

lemma quiet_sampler_update [quiet_intros]: "quiet (sampler_update c p t)"
  unfolding sampler_update_def
  by (intro quiet_intros quiet_reading[where f="\<lambda>s0. emit (LogSamplingProbabilities _ (global_steps (train_state s0)))"]) simp_all

lemma quiet_sampler_update_gate [quiet_intros]:
  "quiet (\<lambda>s. if sampler_update_freq p = 0 then raise ZeroDivisionError s
               else if global_steps (train_state s) mod sampler_update_freq p = 0
               then sampler_update c p t s
               else succeed t s)"
  using quiet_sampler_update[of c p t]
  by (auto simp: quiet_def raise_def succeed_def)

lemma advancing_multidds: "advancing (run_train_step_multidds c p)"
  unfolding run_train_step_multidds_def
  by (intro advancing_intros quiet_intros)

lemma advancing_dds_main_step: "advancing (dds_main_step c p t tsk)"
  unfolding dds_main_step_def
  by (intro advancing_intros quiet_intros) simp_all

lemma quiet_dds_update_round [quiet_intros]: "quiet (dds_update_round c p b bound)"
  unfolding dds_update_round_def by (intro quiet_intros)

lemma quiet_dds_periodic_update [quiet_intros]: "quiet (dds_periodic_update c p b)"
proof -
  have "quiet (for_range (nat (dds_update_steps p)) (dds_update_round c p b) None)"
    by (intro quiet_intros)
  then show ?thesis
    by (auto simp: quiet_def dds_periodic_update_def raise_def succeed_def split: if_splits)
qed

lemma quiet_log_dds_details [quiet_intros]:
  "quiet (\<lambda>s. log_dds_details t (global_steps (train_state s)) ids rw ws rl s)"
  by (auto simp: quiet_def log_dds_details_def emit_def)

lemma quiet_dds_log_step [quiet_intros]: "quiet (dds_log_step t cfg ids ws lv bound)"
  unfolding dds_log_step_def
  by (intro quiet_intros) simp_all

lemma advancing_dds_after_sampling: "advancing (dds_after_sampling c p t tsk)"
  unfolding dds_after_sampling_def
  by (intro advancing_then_quiet advancing_dds_main_step quiet_intros)

lemma sample_non_target_Some:
  assumes "sample_non_target target s = Some y"
  shows "fst (fst y) \<noteq> target \<and>
     (\<exists>n. (\<forall>i<n. fst (task_sampler s i) = target) \<and> task_sampler s n = fst y \<and>
          snd y = s\<lparr>task_sampler := shift (Suc n) (task_sampler s),
                    trace := trace s @ map SamplerPop (replicate n target @ [fst (fst y)])\<rparr>)"
proof -
  let ?P = "\<lambda>target s y. fst (fst y) \<noteq> target \<and>
     (\<exists>n. (\<forall>i<n. fst (task_sampler s i) = target) \<and> task_sampler s n = fst y \<and>
          snd y = s\<lparr>task_sampler := shift (Suc n) (task_sampler s),
                    trace := trace s @ map SamplerPop (replicate n target @ [fst (fst y)])\<rparr>)"
  have "?P target s y"
  proof (rule sample_non_target.raw_induct[where P="?P", OF _ assms], goal_cases)
    case (1 rec target s y)
    obtain tn tk where drawn: "task_sampler s 0 = (tn, tk)" by (cases "task_sampler s 0")
    let ?s1 = "s\<lparr>task_sampler := shift 1 (task_sampler s), trace := trace s @ [SamplerPop tn]\<rparr>"
    have pop: "sampler_pop s = (Inr (tn, tk), ?s1)"
      by (simp add: sampler_pop_def drawn Let_def)
    show ?case
    proof (cases "tn = target")
      case False
      with 1(2) pop have y: "y = ((tn, tk), ?s1)" by simp
      have "(\<forall>i<0::nat. fst (task_sampler s i) = target) \<and> task_sampler s 0 = fst y \<and>
            snd y = s\<lparr>task_sampler := shift (Suc 0) (task_sampler s),
                      trace := trace s @ map SamplerPop (replicate 0 target @ [fst (fst y)])\<rparr>"
        by (simp add: y drawn)
      moreover have "fst (fst y) \<noteq> target" using False y by simp
      ultimately show ?thesis by (intro conjI exI[of _ 0]) blast+
    next
      case True
      with 1(2) pop have "rec target ?s1 = Some y" by simp
      from 1(1)[OF this] obtain n where
        ne: "fst (fst y) \<noteq> target" and
        before: "\<forall>i<n. fst (task_sampler ?s1 i) = target" and
        at: "task_sampler ?s1 n = fst y" and
        st: "snd y = ?s1\<lparr>task_sampler := shift (Suc n) (task_sampler ?s1),
                      trace := trace ?s1 @ map SamplerPop (replicate n target @ [fst (fst y)])\<rparr>"
        by blast
      have "\<forall>i<Suc n. fst (task_sampler s i) = target"
      proof (intro allI impI)
        fix i assume "i < Suc n"
        show "fst (task_sampler s i) = target"
        proof (cases i)
          case 0
          then show ?thesis using drawn True by simp
        next
          case (Suc j)
          with \<open>i < Suc n\<close> before have "fst (task_sampler ?s1 j) = target" by simp
          then show ?thesis by (simp add: Suc shift_def)
        qed
      qed
      moreover have "task_sampler s (Suc n) = fst y"
        using at by (simp add: shift_def)
      moreover have "snd y = s\<lparr>task_sampler := shift (Suc (Suc n)) (task_sampler s),
            trace := trace s @ map SamplerPop (replicate (Suc n) target @ [fst (fst y)])\<rparr>"
        using st True by (simp add: shift_shift)
      ultimately show ?thesis using ne by blast
    qed
  qed
  then show ?thesis .
qed

lemma sample_non_target_returns:
  "fst (task_sampler s n) \<noteq> target \<Longrightarrow> \<exists>y. sample_non_target target s = Some y"
proof (induction n arbitrary: s)
  case 0
  then show ?case
    by (subst sample_non_target.simps)
       (auto simp: sampler_pop_def Let_def split: prod.splits)
next
  case (Suc n)
  obtain tn tk where drawn: "task_sampler s 0 = (tn, tk)" by (cases "task_sampler s 0")
  let ?s1 = "s\<lparr>task_sampler := shift 1 (task_sampler s), trace := trace s @ [SamplerPop tn]\<rparr>"
  have "fst (task_sampler ?s1 n) \<noteq> target" using Suc.prems by (simp add: shift_def)
  from Suc.IH[OF this] obtain y where y: "sample_non_target target ?s1 = Some y" by blast
  show ?case
  proof (cases "tn = target")
    case True
    have "sample_non_target target s = Some y"
      using y True
      by (subst sample_non_target.simps) (simp add: sampler_pop_def Let_def drawn)
    then show ?thesis by blast
  next
    case False
    then show ?thesis
      by (subst sample_non_target.simps) (simp add: sampler_pop_def Let_def drawn)
  qed
qed

lemma run_train_step_advances:
  assumes "run_train_step r c s = Some (res, s')"
  shows "res \<noteq> Inl StopIteration \<and>
         (\<forall>x. res = Inr x \<longrightarrow> (\<exists>t. step (train_state s) t = Inr (train_state s')))"
proof (cases r)
  case JiantRunner
  with assms advancing_base[of c] show ?thesis by (simp add: advancing_def)
next
  case (ReptileRunner i n)
  with assms advancing_reptile[of c i n] show ?thesis by (simp add: advancing_def)
next
  case (MultiDDSRunner p)
  with assms advancing_multidds[of c p] show ?thesis by (simp add: advancing_def)
next
  case (DDSRunner p)
  with assms obtain t tsk s1 where
    smp: "sample_non_target (dds_target_task p) (s\<lparr>trace := trace s @ [ModelTrain]\<rparr>) = Some ((t, tsk), s1)"
    and rest: "dds_after_sampling c p t tsk s1 = (res, s')"
    by (auto simp: run_train_step_dds_def split: option.splits prod.splits)
  from sample_non_target_Some[OF smp] have "train_state s1 = train_state s" by auto
  with rest advancing_dds_after_sampling[of c p t tsk] show ?thesis
    by (simp add: advancing_def) metis
qed

section \<open>The train state and the training loop\<close>

lemma task_steps_le_refl: "task_steps_le ts ts"
  by (simp add: task_steps_le_def)

lemma task_steps_le_trans:
  "task_steps_le a b \<Longrightarrow> task_steps_le b c \<Longrightarrow> task_steps_le a c"
  unfolding task_steps_le_def by (meson order_trans)

lemma step_Inr:
  "step ts t = Inr ts' \<Longrightarrow>
     global_steps ts' = global_steps ts + 1 \<and> task_steps_le ts ts' \<and>
     dom (task_steps ts') = dom (task_steps ts)"
  by (auto simp: step_def task_steps_le_def split: option.splits if_splits)

lemma dom_from_task_name_list: "dom (task_steps (from_task_name_list T)) = set T"
  by (auto simp: from_task_name_list_def dom_map_of_conv_image_fst image_iff)

lemma from_task_name_list_zero:
  "t \<in> set T \<Longrightarrow> task_steps (from_task_name_list T) t = Some 0"
proof -
  assume "t \<in> set T"
  then have "t \<in> dom (task_steps (from_task_name_list T))"
    by (simp add: dom_from_task_name_list)
  then obtain k where k: "map_of (map (\<lambda>task_name. (task_name, 0::int)) T) t = Some k"
    by (auto simp: from_task_name_list_def)
  from map_of_SomeD[OF k] have "k = 0" by auto
  with k show ?thesis by (simp add: from_task_name_list_def)
qed

lemma loop_head_Inr:
  assumes "loop_head r c i s = Some (Inr u, g', s')"
  shows "i < max_steps c \<and> g' = Suspended (i + 1) \<and>
         (\<exists>t. step (train_state s) t = Inr (train_state s'))"
proof -
  from assms have i: "i < max_steps c"
    by (auto simp: loop_head_def split: if_splits)
  with assms obtain res where st: "run_train_step r c s = Some (res, s')"
    and res: "res = Inr ()" and g: "g' = Suspended (i + 1)"
    by (auto simp: loop_head_def split: option.splits sum.splits prod.splits)
  from run_train_step_advances[OF st] res i g show ?thesis by simp
qed

lemma loop_head_StopIteration:
  assumes "loop_head r c i s = Some (Inl StopIteration, g', s')"
  shows "\<not> i < max_steps c \<and> s' = s"
proof (cases "i < max_steps c")
  case False
  with assms show ?thesis by (simp add: loop_head_def)
next
  case True
  with assms obtain res where st: "run_train_step r c s = Some (res, s')"
    and res: "res = Inl StopIteration"
    by (auto simp: loop_head_def split: option.splits sum.splits prod.splits)
  from run_train_step_advances[OF st] res show ?thesis by simp
qed

lemma advance_Suspended:
  "advance n r c (Suspended i) s = Some (Inr u, g', s') \<Longrightarrow>
     g' = Suspended (i + int n) \<and>
     global_steps (train_state s') = global_steps (train_state s) + int n \<and>
     task_steps_le (train_state s) (train_state s') \<and>
     (0 < n \<longrightarrow> i + int n \<le> max_steps c)"
proof (induction n arbitrary: i s)
  case 0
  then show ?case by (simp add: task_steps_le_refl)
next
  case (Suc n)
  from Suc.prems obtain s1 g1 where
    h: "loop_head r c i s = Some (Inr (), g1, s1)" and
    rest: "advance n r c g1 s1 = Some (Inr u, g', s')"
    by (auto split: option.splits sum.splits prod.splits)
  from loop_head_Inr[OF h] obtain t where
    i: "i < max_steps c" and g1: "g1 = Suspended (i + 1)" and
    st: "step (train_state s) t = Inr (train_state s1)" by blast
  note IH = Suc.IH[OF rest[unfolded g1]]
  from step_Inr[OF st] IH i show ?case
    by (auto intro: task_steps_le_trans)
qed

lemma advance_add:
  "advance (m + n) r c g s =
     (case advance m r c g s of
        None \<Rightarrow> None
      | Some (Inl e, g', s') \<Rightarrow> Some (Inl e, g', s')
      | Some (Inr _, g', s') \<Rightarrow> advance n r c g' s')"
  by (induction m arbitrary: g s) (auto split: option.splits sum.splits prod.splits)

lemma get_train_dataloader_dict_frame:
  "get_train_dataloader_dict c s = (res, s') \<Longrightarrow> s' = s \<and> res \<noteq> Inl StopIteration"
proof -
  have "for_each xs (add_train_dataloader c) d s = (res, s') \<Longrightarrow> s' = s \<and> res \<noteq> Inl StopIteration"
    for xs d
  proof (induction xs arbitrary: d)
    case Nil
    then show ?case by auto
  next
    case (Cons x xs)
    then show ?case
      by (auto simp: add_train_dataloader_def and_then_def lookup_def raise_def succeed_def
          split: option.splits prod.splits sum.splits)
  qed
  then show "get_train_dataloader_dict c s = (res, s') \<Longrightarrow> s' = s \<and> res \<noteq> Inl StopIteration"
    by (simp add: get_train_dataloader_dict_def)
qed

lemma context_next_Fresh:
  assumes "context_next r c Fresh s = Some (Inr u, g', s')"
  shows "0 < max_steps c \<and> g' = Suspended 1 \<and>
         (\<exists>t. step (from_task_name_list (train_task_list c)) t = Inr (train_state s'))"
proof -
  from assms obtain d s1 where
    h: "loop_head r c 0
          (s1\<lparr>train_dataloader_dict := d,
               train_state := from_task_name_list (train_task_list c)\<rparr>) = Some (Inr u, g', s')"
    by (auto split: prod.splits sum.splits)
  from loop_head_Inr[OF h] show ?thesis by simp
qed

lemma context_next_Resumed:
  assumes "context_next r c (Resumed ts) s = Some (Inr u, g', s')"
  shows "global_steps ts < max_steps c \<and> g' = Suspended (global_steps ts + 1) \<and>
         (\<exists>t. step ts t = Inr (train_state s'))"
proof -
  from assms obtain d s1 where
    h: "loop_head r c (global_steps ts)
          (s1\<lparr>train_dataloader_dict := d, train_state := ts\<rparr>) = Some (Inr u, g', s')"
    by (auto split: prod.splits sum.splits)
  from loop_head_Inr[OF h] show ?thesis by simp
qed

lemma run_train_step_base_succeeds:
  assumes drawn: "task_sampler s 0 = (t, tsk)"
    and cfg: "task_specific_configs c t = Some cfg"
    and gas: "gradient_accumulation_steps cfg \<noteq> 0"
    and dl: "train_dataloader_dict s t = Some st"
    and k: "task_steps (train_state s) t = Some k"
  shows "\<exists>s'. run_train_step_base c s = (Inr (), s') \<and>
           task_sampler s' = shift 1 (task_sampler s) \<and>
           dom (train_dataloader_dict s') = dom (train_dataloader_dict s) \<and>
           step (train_state s) t = Inr (train_state s')"
proof -
  let ?s1 = "s\<lparr>task_sampler := shift (Suc 0) (task_sampler s),
               trace := trace s @ [ModelTrain, SamplerPop t]\<rparr>"
  have dl1: "train_dataloader_dict ?s1 t = Some st" using dl by simp
  have d: "dom ((train_dataloader_dict s)(t \<mapsto> x)) = dom (train_dataloader_dict s)" for x
    using dl by auto
  show ?thesis
    using drawn cfg gas k d
    by (simp add: run_train_step_base_def and_then_def emit_def sampler_pop_def lookup_def
        succeed_def Let_def optimizer_step_def zero_grad_def train_state_step_def step_def
        py_div_def for_range_micro_batch[OF dl1])
qed

lemma base_ready_step:
  assumes "base_ready c s"
  shows "\<exists>s'. run_train_step_base c s = (Inr (), s') \<and> base_ready c s'"
proof -
  obtain t tsk where drawn: "task_sampler s 0 = (t, tsk)" by (cases "task_sampler s 0")
  from assms have t: "t \<in> set (train_task_list c)"
    using drawn by (auto simp: base_ready_def samples_train_tasks_def dest: spec[of _ 0])
  with assms obtain cfg where cfg: "task_specific_configs c t = Some cfg"
    and gas: "gradient_accumulation_steps cfg \<noteq> 0"
    by (auto simp: base_ready_def tasks_configured_def)
  from assms t obtain st where dl: "train_dataloader_dict s t = Some st"
    by (auto simp: base_ready_def)
  from assms t obtain k where k: "task_steps (train_state s) t = Some k"
    by (auto simp: base_ready_def)
  from run_train_step_base_succeeds[OF drawn cfg gas dl k] obtain s' where
    run: "run_train_step_base c s = (Inr (), s')" and
    smp: "task_sampler s' = shift 1 (task_sampler s)" and
    d: "dom (train_dataloader_dict s') = dom (train_dataloader_dict s)" and
    st: "step (train_state s) t = Inr (train_state s')" by blast
  have "base_ready c s'"
    using assms smp d step_Inr[OF st]
    by (auto simp: base_ready_def samples_train_tasks_def shift_def)
  with run show ?thesis by blast
qed

lemma base_ready_advance:
  assumes "base_ready c s" "i + int n \<le> max_steps c"
  shows "\<exists>g' s'. advance n JiantRunner c (Suspended i) s = Some (Inr (), g', s') \<and> base_ready c s'"
  using assms
proof (induction n arbitrary: i s)
  case 0
  then show ?case by simp
next
  case (Suc n)
  from base_ready_step[OF Suc.prems(1)] obtain s1 where
    run: "run_train_step_base c s = (Inr (), s1)" and r1: "base_ready c s1" by blast
  have i: "i < max_steps c" using Suc.prems(2) by simp
  have "(i + 1) + int n \<le> max_steps c" using Suc.prems(2) by simp
  from Suc.IH[OF r1 this] obtain g' s' where
    "advance n JiantRunner c (Suspended (i + 1)) s1 = Some (Inr (), g', s')" "base_ready c s'"
    by blast
  then show ?case using run i by (simp add: loop_head_def)
qed

lemma get_train_dataloader_dict_succeeds:
  assumes "tasks_configured c"
  shows "\<exists>d. get_train_dataloader_dict c s = (Inr d, s) \<and> dom d = set (train_task_list c)"
proof -
  have "\<forall>t \<in> set xs. t \<in> dom (task_dict c) \<and> t \<in> dom (task_cache_train c) \<and>
          t \<in> dom (task_specific_configs c) \<Longrightarrow>
        \<exists>d. for_each xs (add_train_dataloader c) d0 s = (Inr d, s) \<and> dom d = dom d0 \<union> set xs"
    for xs d0
  proof (induction xs arbitrary: d0)
    case Nil
    then show ?case by simp
  next
    case (Cons x xs)
    from Cons.prems obtain a b e where
      x: "task_dict c x = Some a" "task_cache_train c x = Some b" "task_specific_configs c x = Some e"
      by auto
    from Cons.prems have "\<forall>t \<in> set xs. t \<in> dom (task_dict c) \<and> t \<in> dom (task_cache_train c) \<and>
          t \<in> dom (task_specific_configs c)" by simp
    from Cons.IH[OF this, of "d0(x \<mapsto> b)"] obtain d where
      d: "for_each xs (add_train_dataloader c) (d0(x \<mapsto> b)) s = (Inr d, s)"
         "dom d = dom (d0(x \<mapsto> b)) \<union> set xs" by blast
    have one: "add_train_dataloader c x d0 s = (Inr (d0(x \<mapsto> b)), s)"
      using x by (simp add: add_train_dataloader_def and_then_def lookup_def succeed_def)
    have "for_each (x # xs) (add_train_dataloader c) d0 s = (Inr d, s)"
      by (simp add: one d(1))
    moreover have "dom d = dom d0 \<union> set (x # xs)" using d(2) by auto
    ultimately show ?case by blast
  qed
  from this[of "train_task_list c" Map.empty] assms show ?thesis
    by (auto simp: get_train_dataloader_dict_def tasks_configured_def)
qed

lemma base_run_train_context_succeeds:
  assumes cfg: "tasks_configured c" and smp: "samples_train_tasks c s"
    and n: "int n \<le> max_steps c"
  shows "\<exists>g' s'. advance n JiantRunner c Fresh s = Some (Inr (), g', s')"
proof (cases n)
  case 0
  then show ?thesis by simp
next
  case (Suc m)
  from get_train_dataloader_dict_succeeds[OF cfg, of s] obtain d where
    d: "get_train_dataloader_dict c s = (Inr d, s)" "dom d = set (train_task_list c)" by blast
  let ?s0 = "s\<lparr>train_dataloader_dict := d,
                train_state := from_task_name_list (train_task_list c)\<rparr>"
  have r0: "base_ready c ?s0"
    using cfg smp d(2)
    by (simp add: base_ready_def samples_train_tasks_def dom_from_task_name_list)
  have "0 + int n \<le> max_steps c" using n by simp
  from base_ready_advance[OF r0 this] obtain g' s' where
    a: "advance n JiantRunner c (Suspended 0) ?s0 = Some (Inr (), g', s')" by blast
  have "advance n JiantRunner c Fresh s = advance n JiantRunner c (Suspended 0) ?s0"
    by (simp add: Suc d(1))
  with a show ?thesis by simp
qed

lemma step_tracked:
  "task_steps ts t = Some k \<Longrightarrow>
     step ts t = Inr \<lparr>global_steps = global_steps ts + 1,
                      task_steps = (task_steps ts)(t \<mapsto> k + 1)\<rparr>"
  by (simp add: step_def)

lemma step_untracked: "task_steps ts t = None \<Longrightarrow> step ts t = Inl (KeyError t)"
  by (simp add: step_def)

lemma advance_Fresh_counts:
  assumes n: "0 < n" and run: "advance n r c Fresh s = Some (Inr (), g, s')"
  shows "global_steps (train_state s') = int n \<and> int n \<le> max_steps c \<and>
      (\<forall>m. 0 < m \<and> m \<le> n \<longrightarrow>
         (\<exists>g'' s''. advance m r c Fresh s = Some (Inr (), g'', s'') \<and>
            global_steps (train_state s'') = int m \<and>
            task_steps_le (train_state s'') (train_state s')))"
proof -
  from n obtain k where k: "n = Suc k" by (cases n) auto
  from run k obtain g1 s1 where
    first: "context_next r c Fresh s = Some (Inr (), g1, s1)" and
    rest: "advance k r c g1 s1 = Some (Inr (), g, s')"
    by (auto split: option.splits sum.splits prod.splits)
  from context_next_Fresh[OF first] obtain t where
    pos: "0 < max_steps c" and g1: "g1 = Suspended 1" and
    st: "step (from_task_name_list (train_task_list c)) t = Inr (train_state s1)" by blast
  from step_Inr[OF st] have one: "global_steps (train_state s1) = 1"
    by (simp add: from_task_name_list_def)
  note a = advance_Suspended[OF rest[unfolded g1]]
  from a one k have p1: "global_steps (train_state s') = int n" by simp
  from a pos k have p2: "int n \<le> max_steps c" by (cases k) auto
  have p3: "\<exists>g'' s''. advance m r c Fresh s = Some (Inr (), g'', s'') \<and>
            global_steps (train_state s'') = int m \<and>
            task_steps_le (train_state s'') (train_state s')" if m: "0 < m \<and> m \<le> n" for m
  proof -
    from m obtain j where j: "m = Suc j" by (cases m) auto
    with m k have "j \<le> k" by simp
    then obtain d where d: "k = j + d" using le_Suc_ex by blast
    have "advance (j + d) r c (Suspended 1) s1 = Some (Inr (), g, s')"
      using rest by (simp add: d g1)
    then obtain g2 s2 where
      upto: "advance j r c (Suspended 1) s1 = Some (Inr (), g2, s2)" and
      from2: "advance d r c g2 s2 = Some (Inr (), g, s')"
      unfolding advance_add
      by (cases "advance j r c (Suspended 1) s1") (auto split: sum.splits prod.splits)
    note b = advance_Suspended[OF upto]
    from b have g2: "g2 = Suspended (1 + int j)" by simp
    from advance_Suspended[OF from2[unfolded g2]]
    have le: "task_steps_le (train_state s2) (train_state s')" by simp
    have "advance m r c Fresh s = Some (Inr (), g2, s2)"
      using first upto by (simp add: j g1)
    moreover have "global_steps (train_state s2) = int m" using b one j by simp
    ultimately show ?thesis using le by blast
  qed
  from p1 p2 p3 show ?thesis by blast
qed

text \<open>
  C1: \<open>from_task_name_list T\<close> is the zero state over exactly \<open>T\<close>. In every train state that
  tracks exactly \<open>T\<close>, \<open>step t\<close> with \<open>t\<close> in \<open>T\<close> adds 1 to \<open>task_steps[t]\<close> and to
  \<open>global_steps\<close> and changes nothing else, and \<open>step t\<close> with \<open>t\<close> outside \<open>T\<close> fails with
  \<open>KeyError\<close>. Hence, for every runner, when \<open>run_train_context\<close> has been advanced \<open>n > 0\<close>
  times the yielded state has \<open>global_steps = n\<close> (and \<open>n\<close> is at most \<open>max_steps\<close>), and
  from any earlier yield to this one no \<open>task_steps\<close> entry has decreased. For the base
  runner on a configured container, every \<open>n\<close> up to \<open>max_steps\<close> advances succeed.
\<close>

theorem train_state_counts_steps:
  "(global_steps (from_task_name_list T) = 0 \<and>
    dom (task_steps (from_task_name_list T)) = set T \<and>
    (\<forall>t \<in> set T. task_steps (from_task_name_list T) t = Some 0)) \<and>
   (\<forall>ts t. dom (task_steps ts) = set T \<longrightarrow>
      (t \<in> set T \<longrightarrow>
         (\<exists>k. task_steps ts t = Some k \<and>
              step ts t = Inr \<lparr>global_steps = global_steps ts + 1,
                               task_steps = (task_steps ts)(t \<mapsto> k + 1)\<rparr>)) \<and>
      (t \<notin> set T \<longrightarrow> step ts t = Inl (KeyError t))) \<and>
   (\<forall>n g s'. 0 < n \<longrightarrow> advance n r c Fresh s = Some (Inr (), g, s') \<longrightarrow>
      global_steps (train_state s') = int n \<and> int n \<le> max_steps c \<and>
      (\<forall>m. 0 < m \<and> m \<le> n \<longrightarrow>
         (\<exists>g'' s''. advance m r c Fresh s = Some (Inr (), g'', s'') \<and>
            global_steps (train_state s'') = int m \<and>
            task_steps_le (train_state s'') (train_state s')))) \<and>
   (tasks_configured c \<and> samples_train_tasks c s \<longrightarrow>
      (\<forall>n. int n \<le> max_steps c \<longrightarrow>
         (\<exists>g s'. advance n JiantRunner c Fresh s = Some (Inr (), g, s'))))"
proof -
  have p1: "global_steps (from_task_name_list T) = 0 \<and>
    dom (task_steps (from_task_name_list T)) = set T \<and>
    (\<forall>t \<in> set T. task_steps (from_task_name_list T) t = Some 0)"
    using dom_from_task_name_list[of T] from_task_name_list_zero[of _ T]
    by (simp add: from_task_name_list_def)
  have p2: "\<forall>ts t. dom (task_steps ts) = set T \<longrightarrow>
      (t \<in> set T \<longrightarrow>
         (\<exists>k. task_steps ts t = Some k \<and>
              step ts t = Inr \<lparr>global_steps = global_steps ts + 1,
                               task_steps = (task_steps ts)(t \<mapsto> k + 1)\<rparr>)) \<and>
      (t \<notin> set T \<longrightarrow> step ts t = Inl (KeyError t))"
  proof (intro allI impI conjI)
    fix ts :: TrainState and t
    assume d: "dom (task_steps ts) = set T"
    show "\<exists>k. task_steps ts t = Some k \<and>
              step ts t = Inr \<lparr>global_steps = global_steps ts + 1,
                               task_steps = (task_steps ts)(t \<mapsto> k + 1)\<rparr>" if "t \<in> set T"
    proof -
      from that d obtain k where "task_steps ts t = Some k" by auto
      then show ?thesis using step_tracked by blast
    qed
    show "step ts t = Inl (KeyError t)" if "t \<notin> set T"
    proof -
      from that d have "task_steps ts t = None" by auto
      then show ?thesis by (rule step_untracked)
    qed
  qed
  have p3: "\<forall>n g s'. 0 < n \<longrightarrow> advance n r c Fresh s = Some (Inr (), g, s') \<longrightarrow>
      global_steps (train_state s') = int n \<and> int n \<le> max_steps c \<and>
      (\<forall>m. 0 < m \<and> m \<le> n \<longrightarrow>
         (\<exists>g'' s''. advance m r c Fresh s = Some (Inr (), g'', s'') \<and>
            global_steps (train_state s'') = int m \<and>
            task_steps_le (train_state s'') (train_state s')))"
    using advance_Fresh_counts by (intro allI impI)
  have p4: "tasks_configured c \<and> samples_train_tasks c s \<longrightarrow>
      (\<forall>n. int n \<le> max_steps c \<longrightarrow>
         (\<exists>g s'. advance n JiantRunner c Fresh s = Some (Inr (), g, s')))"
    using base_run_train_context_succeeds by (intro allI impI) (elim conjE)
  show ?thesis by (rule conjI[OF p1 conjI[OF p2 conjI[OF p3 p4]]])
qed

lemma example_configured:
  "tasks_configured example_container \<and> samples_train_tasks example_container example_state"
  by (simp add: tasks_configured_def samples_train_tasks_def example_container_def
      example_state_def)

theorem train_state_counts_steps_witness:
  "task_steps (from_task_name_list [''rte'', ''mnli'']) ''mnli'' = Some 0 \<and>
   step (from_task_name_list [''rte'', ''mnli'']) ''rte'' =
     Inr \<lparr>global_steps = 1, task_steps = [''rte'' \<mapsto> 1, ''mnli'' \<mapsto> 0]\<rparr> \<and>
   step (from_task_name_list [''rte'', ''mnli'']) ''sst'' = Inl (KeyError ''sst'') \<and>
   (\<exists>g s' g'' s''.
      advance 2 JiantRunner example_container Fresh example_state = Some (Inr (), g, s') \<and>
      global_steps (train_state s') = 2 \<and>
      advance 1 JiantRunner example_container Fresh example_state = Some (Inr (), g'', s'') \<and>
      global_steps (train_state s'') = 1 \<and>
      task_steps_le (train_state s'') (train_state s'))"
proof -
  let ?T = "[''rte'', ''mnli'']"
  note inst = train_state_counts_steps[of ?T JiantRunner example_container example_state]
  note i1 = inst[THEN conjunct1]
  note i2 = inst[THEN conjunct2, THEN conjunct1, rule_format]
  note i3 = inst[THEN conjunct2, THEN conjunct2, THEN conjunct1, rule_format]
  note i4 = inst[THEN conjunct2, THEN conjunct2, THEN conjunct2, rule_format]
  have d: "dom (task_steps (from_task_name_list ?T)) = set ?T"
    using i1 by (elim conjE)
  have "''mnli'' \<in> set ?T" by simp
  from i1[THEN conjunct2, THEN conjunct2, rule_format, OF this]
  have z: "task_steps (from_task_name_list ?T) ''mnli'' = Some 0" .
  have "''rte'' \<in> set ?T" by simp
  from i2[OF d, THEN conjunct1, rule_format, OF this] obtain k where
    "task_steps (from_task_name_list ?T) ''rte'' = Some k"
    "step (from_task_name_list ?T) ''rte'' =
       Inr \<lparr>global_steps = global_steps (from_task_name_list ?T) + 1,
            task_steps = (task_steps (from_task_name_list ?T))(''rte'' \<mapsto> k + 1)\<rparr>"
    by (elim exE conjE)
  then have a: "step (from_task_name_list ?T) ''rte'' =
     Inr \<lparr>global_steps = 1, task_steps = [''rte'' \<mapsto> 1, ''mnli'' \<mapsto> 0]\<rparr>"
    by (auto simp: from_task_name_list_def fun_upd_twist)
  have "''sst'' \<notin> set ?T" by simp
  from i2[OF d, THEN conjunct2, rule_format, OF this]
  have b: "step (from_task_name_list ?T) ''sst'' = Inl (KeyError ''sst'')" .
  have "int 2 \<le> max_steps example_container" by (simp add: example_container_def)
  from i4[OF example_configured this] obtain g s' where
    run: "advance 2 JiantRunner example_container Fresh example_state = Some (Inr (), g, s')"
    by (elim exE)
  have "0 < (2::nat)" by simp
  note c = i3[OF this run]
  from c have g2: "global_steps (train_state s') = int 2" by (elim conjE)
  have "0 < (1::nat) \<and> (1::nat) \<le> 2" by simp
  from c[THEN conjunct2, THEN conjunct2, rule_format, OF this] obtain g'' s'' where
    e: "advance 1 JiantRunner example_container Fresh example_state = Some (Inr (), g'', s'')"
       "global_steps (train_state s'') = int 1"
       "task_steps_le (train_state s'') (train_state s')"
    by (elim exE conjE)
  from z a b run g2 e show ?thesis by auto
qed

lemma consume_Inr:
  "consume r c g s = Some (Inr (), s') \<Longrightarrow>
     \<exists>n g1 s1 g2. advance n r c g s = Some (Inr (), g1, s1) \<and>
       context_next r c g1 s1 = Some (Inl StopIteration, g2, s')"
proof (induction r c g s rule: consume.induct)
  case (1 r c g s)
  show ?case
  proof (cases "context_next r c g s")
    case None
    with "1.prems" show ?thesis by (simp add: consume.simps[of r c g s])
  next
    case (Some y)
    obtain res g' sa where y: "y = (res, g', sa)" by (cases y)
    show ?thesis
    proof (cases res)
      case (Inl e)
      with "1.prems" Some y have "e = StopIteration" "sa = s'"
        by (auto simp: consume.simps[of r c g s] split: if_splits)
      with Some y Inl have "advance 0 r c g s = Some (Inr (), g, s) \<and>
          context_next r c g s = Some (Inl StopIteration, g', s')" by simp
      then show ?thesis by blast
    next
      case (Inr u)
      with "1.prems" Some y have rest: "consume r c g' sa = Some (Inr (), s')"
        by (simp add: consume.simps[of r c g s])
      from "1.IH"[OF Some y[symmetric] Inr refl rest] obtain n g1 s1 g2 where
        "advance n r c g' sa = Some (Inr (), g1, s1)"
        "context_next r c g1 s1 = Some (Inl StopIteration, g2, s')"
        by blast
      with Some y Inr have "advance (Suc n) r c g s = Some (Inr (), g1, s1) \<and>
          context_next r c g1 s1 = Some (Inl StopIteration, g2, s')" by simp
      then show ?thesis by blast
    qed
  qed
qed

lemma context_next_stops:
  assumes "context_next r c g s = Some (Inl StopIteration, g2, s')"
  shows "case g of
           Fresh \<Rightarrow> max_steps c \<le> 0 \<and> train_state s' = from_task_name_list (train_task_list c)
         | Resumed ts \<Rightarrow> max_steps c \<le> global_steps ts \<and> train_state s' = ts
         | Suspended i \<Rightarrow> max_steps c \<le> i \<and> s' = s
         | Exhausted \<Rightarrow> s' = s"
proof (cases g)
  case Fresh
  obtain res s1 where d: "get_train_dataloader_dict c s = (res, s1)"
    by (cases "get_train_dataloader_dict c s")
  from get_train_dataloader_dict_frame[OF d] assms Fresh d obtain dd where
    "loop_head r c 0 (s\<lparr>train_dataloader_dict := dd,
        train_state := from_task_name_list (train_task_list c)\<rparr>) =
       Some (Inl StopIteration, g2, s')"
    by (cases res) auto
  from loop_head_StopIteration[OF this] Fresh show ?thesis by auto
next
  case (Resumed ts)
  obtain res s1 where d: "get_train_dataloader_dict c s = (res, s1)"
    by (cases "get_train_dataloader_dict c s")
  from get_train_dataloader_dict_frame[OF d] assms Resumed d obtain dd where
    "loop_head r c (global_steps ts) (s\<lparr>train_dataloader_dict := dd, train_state := ts\<rparr>) =
       Some (Inl StopIteration, g2, s')"
    by (cases res) auto
  from loop_head_StopIteration[OF this] Resumed show ?thesis by auto
next
  case (Suspended i)
  with assms loop_head_StopIteration[of r c i s g2 s'] show ?thesis by auto
next
  case Exhausted
  with assms show ?thesis by simp
qed

lemma consume_Resumed:
  assumes fin: "consume r c (Resumed ts) s = Some (Inr (), s')"
    and k: "global_steps ts \<le> max_steps c"
  shows "global_steps (train_state s') = max_steps c \<and>
     (\<exists>g s1 g2. advance (nat (max_steps c - global_steps ts)) r c (Resumed ts) s =
          Some (Inr (), g, s1) \<and>
        context_next r c g s1 = Some (Inl StopIteration, g2, s'))"
proof -
  from consume_Inr[OF fin] obtain n g1 s1 g2 where
    adv: "advance n r c (Resumed ts) s = Some (Inr (), g1, s1)" and
    stop: "context_next r c g1 s1 = Some (Inl StopIteration, g2, s')" by blast
  show ?thesis
  proof (cases n)
    case 0
    with adv have g1: "g1 = Resumed ts" "s1 = s" by simp_all
    from context_next_stops[OF stop] g1 k have
      "global_steps ts = max_steps c" "train_state s' = ts" by simp_all
    moreover from this adv stop 0 have
      "advance (nat (max_steps c - global_steps ts)) r c (Resumed ts) s = Some (Inr (), g1, s1)"
      by simp
    ultimately show ?thesis using stop by auto
  next
    case (Suc m)
    with adv obtain ga sa where
      first: "context_next r c (Resumed ts) s = Some (Inr (), ga, sa)" and
      rest: "advance m r c ga sa = Some (Inr (), g1, s1)"
      by (auto split: option.splits sum.splits prod.splits)
    from context_next_Resumed[OF first] obtain t where
      lt: "global_steps ts < max_steps c" and ga: "ga = Suspended (global_steps ts + 1)" and
      st: "step ts t = Inr (train_state sa)" by blast
    from step_Inr[OF st] have one: "global_steps (train_state sa) = global_steps ts + 1" by simp
    note a = advance_Suspended[OF rest[unfolded ga]]
    from a have g1: "g1 = Suspended (global_steps ts + 1 + int m)" by simp
    from context_next_stops[OF stop] g1 have
      ge: "max_steps c \<le> global_steps ts + 1 + int m" and s': "s' = s1" by simp_all
    from a lt have le: "global_steps ts + 1 + int m \<le> max_steps c" by (cases m) auto
    from ge le have eq: "max_steps c = global_steps ts + 1 + int m" by simp
    then have n: "nat (max_steps c - global_steps ts) = n" using Suc by simp
    from a one eq s' have "global_steps (train_state s') = max_steps c" by simp
    then show ?thesis using adv stop n by auto
  qed
qed

lemma consume_Fresh:
  assumes fin: "consume r c Fresh s = Some (Inr (), s')" and k: "0 \<le> max_steps c"
  shows "global_steps (train_state s') = max_steps c"
proof -
  from consume_Inr[OF fin] obtain n g1 s1 g2 where
    adv: "advance n r c Fresh s = Some (Inr (), g1, s1)" and
    stop: "context_next r c g1 s1 = Some (Inl StopIteration, g2, s')" by blast
  show ?thesis
  proof (cases n)
    case 0
    with adv have g1: "g1 = Fresh" "s1 = s" by simp_all
    from context_next_stops[OF stop] g1 k show ?thesis
      by (simp add: from_task_name_list_def)
  next
    case (Suc m)
    then have "0 < n" by simp
    from advance_Fresh_counts[OF this adv] have
      gs: "global_steps (train_state s1) = int n" and le: "int n \<le> max_steps c" by simp_all
    from adv Suc obtain ga sa where
      first: "context_next r c Fresh s = Some (Inr (), ga, sa)" and
      rest: "advance m r c ga sa = Some (Inr (), g1, s1)"
      by (auto split: option.splits sum.splits prod.splits)
    from context_next_Fresh[OF first] have ga: "ga = Suspended 1" by simp
    from advance_Suspended[OF rest[unfolded ga]] have g1: "g1 = Suspended (1 + int m)" by simp
    from context_next_stops[OF stop] g1 have "max_steps c \<le> 1 + int m" "s' = s1" by simp_all
    with gs le Suc show ?thesis by simp
  qed
qed

lemma consume_after_advance:
  "advance n r c g s = Some (Inr (), g1, s1) \<Longrightarrow> consume r c g s = consume r c g1 s1"
proof (induction n arbitrary: g s)
  case 0
  then show ?case by simp
next
  case (Suc n)
  from Suc.prems obtain ga sa where
    first: "context_next r c g s = Some (Inr (), ga, sa)" and
    rest: "advance n r c ga sa = Some (Inr (), g1, s1)"
    by (auto split: option.splits sum.splits prod.splits)
  have "consume r c g s = consume r c ga sa"
    by (subst consume.simps) (simp add: first)
  with Suc.IH[OF rest] show ?case by simp
qed

lemma consume_Suspended_done:
  "max_steps c \<le> i \<Longrightarrow> consume r c (Suspended i) s = Some (Inr (), s)"
  by (subst consume.simps) (simp add: loop_head_def)

lemma base_resume_succeeds:
  assumes cfg: "tasks_configured c" and smp: "samples_train_tasks c s"
    and d: "dom (task_steps ts) = set (train_task_list c)"
  shows "\<exists>s'. consume JiantRunner c (Resumed ts) s = Some (Inr (), s')"
proof -
  from get_train_dataloader_dict_succeeds[OF cfg, of s] obtain dd where
    dd: "get_train_dataloader_dict c s = (Inr dd, s)" "dom dd = set (train_task_list c)" by blast
  let ?s0 = "s\<lparr>train_dataloader_dict := dd, train_state := ts\<rparr>"
  have r0: "base_ready c ?s0"
    using cfg smp dd(2) d by (simp add: base_ready_def samples_train_tasks_def)
  show ?thesis
  proof (cases "global_steps ts < max_steps c")
    case False
    have "consume JiantRunner c (Resumed ts) s = Some (Inr (), ?s0)"
      using False by (subst consume.simps) (simp add: dd(1) loop_head_def)
    then show ?thesis by blast
  next
    case True
    define n where "n = nat (max_steps c - global_steps ts)"
    from True have n: "0 < n" "global_steps ts + int n = max_steps c" by (simp_all add: n_def)
    then have "global_steps ts + int n \<le> max_steps c" by simp
    from base_ready_advance[OF r0 this] obtain g' s' where
      a: "advance n JiantRunner c (Suspended (global_steps ts)) ?s0 = Some (Inr (), g', s')"
      by blast
    from advance_Suspended[OF a] n have g': "g' = Suspended (max_steps c)" by simp
    from n(1) obtain m where m: "n = Suc m" by (cases n) auto
    have "advance n JiantRunner c (Resumed ts) s =
          advance n JiantRunner c (Suspended (global_steps ts)) ?s0"
      by (simp add: m dd(1))
    with a have "advance n JiantRunner c (Resumed ts) s = Some (Inr (), g', s')" by simp
    from consume_after_advance[OF this] g' consume_Suspended_done[of c "max_steps c" JiantRunner s']
    show ?thesis by simp
  qed
qed

lemma base_run_train_succeeds:
  assumes cfg: "tasks_configured c" and smp: "samples_train_tasks c s"
  shows "\<exists>s'. consume JiantRunner c Fresh s = Some (Inr (), s')"
proof (cases "0 < max_steps c")
  case False
  from get_train_dataloader_dict_succeeds[OF cfg, of s] obtain dd where
    dd: "get_train_dataloader_dict c s = (Inr dd, s)" by blast
  have "consume JiantRunner c Fresh s =
      Some (Inr (), s\<lparr>train_dataloader_dict := dd,
                       train_state := from_task_name_list (train_task_list c)\<rparr>)"
    using False by (subst consume.simps) (simp add: dd loop_head_def)
  then show ?thesis by blast
next
  case True
  define n where "n = nat (max_steps c)"
  from True have n: "int n \<le> max_steps c" "0 < n" "int n = max_steps c"
    by (simp_all add: n_def)
  from base_run_train_context_succeeds[OF cfg smp n(1)] obtain g' s' where
    a: "advance n JiantRunner c Fresh s = Some (Inr (), g', s')" by blast
  from n(2) obtain m where m: "n = Suc m" by (cases n) auto
  from a m obtain ga sa where
    first: "context_next JiantRunner c Fresh s = Some (Inr (), ga, sa)" and
    rest: "advance m JiantRunner c ga sa = Some (Inr (), g', s')"
    by (auto split: option.splits sum.splits prod.splits)
  from context_next_Fresh[OF first] have ga: "ga = Suspended 1" by simp
  from advance_Suspended[OF rest[unfolded ga]] m n(3) have g': "g' = Suspended (max_steps c)"
    by simp
  from consume_after_advance[OF a] g' consume_Suspended_done[of c "max_steps c" JiantRunner s']
  show ?thesis by simp
qed

text \<open>
  C3: let \<open>ts\<close> be a restored train state with \<open>global_steps ts \<le> max_steps\<close>. When the
  loop over \<open>resume_train_context(ts)\<close> runs to its end, the generator has yielded exactly
  \<open>max_steps - global_steps ts\<close> times, one training step each, before it stops, and the
  train state ends with \<open>global_steps = max_steps\<close>: the count an uninterrupted
  \<open>run_train\<close> ends with. For the base runner on a configured container, the uninterrupted
  loop runs to its end, and so does the resumed one when the restored state tracks the
  training tasks.
\<close>

theorem resume_train_context_reaches_max_steps:
  "(\<forall>s'. global_steps ts \<le> max_steps c \<longrightarrow>
        consume r c (Resumed ts) s = Some (Inr (), s') \<longrightarrow>
      global_steps (train_state s') = max_steps c \<and>
      (\<exists>g s1 g2. advance (nat (max_steps c - global_steps ts)) r c (Resumed ts) s =
           Some (Inr (), g, s1) \<and>
         context_next r c g s1 = Some (Inl StopIteration, g2, s')) \<and>
      (\<forall>s0 s0'. 0 \<le> max_steps c \<longrightarrow> run_train r c s0 = Some (Inr (), s0') \<longrightarrow>
         global_steps (train_state s0') = global_steps (train_state s'))) \<and>
   (tasks_configured c \<and> samples_train_tasks c s \<longrightarrow>
      (\<exists>s'. run_train JiantRunner c s = Some (Inr (), s')) \<and>
      (dom (task_steps ts) = set (train_task_list c) \<longrightarrow>
         (\<exists>s'. consume JiantRunner c (Resumed ts) s = Some (Inr (), s'))))"
proof -
  have p1: "global_steps (train_state s') = max_steps c \<and>
      (\<exists>g s1 g2. advance (nat (max_steps c - global_steps ts)) r c (Resumed ts) s =
           Some (Inr (), g, s1) \<and>
         context_next r c g s1 = Some (Inl StopIteration, g2, s')) \<and>
      (\<forall>s0 s0'. 0 \<le> max_steps c \<longrightarrow> run_train r c s0 = Some (Inr (), s0') \<longrightarrow>
         global_steps (train_state s0') = global_steps (train_state s'))"
    if k: "global_steps ts \<le> max_steps c"
      and fin: "consume r c (Resumed ts) s = Some (Inr (), s')" for s'
  proof -
    note a = consume_Resumed[OF fin k]
    have "global_steps (train_state s0') = global_steps (train_state s')"
      if "0 \<le> max_steps c" "run_train r c s0 = Some (Inr (), s0')" for s0 s0'
      using consume_Fresh[OF that(2)[unfolded run_train_def] that(1)] a by simp
    with a show ?thesis by blast
  qed
  have p2: "(\<exists>s'. run_train JiantRunner c s = Some (Inr (), s')) \<and>
      (dom (task_steps ts) = set (train_task_list c) \<longrightarrow>
         (\<exists>s'. consume JiantRunner c (Resumed ts) s = Some (Inr (), s')))"
    if "tasks_configured c \<and> samples_train_tasks c s"
    using that base_resume_succeeds[of c s ts] base_run_train_succeeds[of c s]
    by (simp add: run_train_def)
  show ?thesis
    by (rule conjI) (use p1 in blast, use p2 in blast)
qed

theorem resume_train_context_reaches_max_steps_witness:
  "global_steps example_restored \<le> max_steps example_container \<and>
   (\<exists>s' s0'.
      consume JiantRunner example_container (Resumed example_restored) example_state =
        Some (Inr (), s') \<and>
      global_steps (train_state s') = 2 \<and>
      (\<exists>g s1 g2. advance 1 JiantRunner example_container (Resumed example_restored)
                     example_state = Some (Inr (), g, s1) \<and>
         context_next JiantRunner example_container g s1 = Some (Inl StopIteration, g2, s')) \<and>
      run_train JiantRunner example_container example_state = Some (Inr (), s0') \<and>
      global_steps (train_state s0') = 2)"
proof -
  note inst = resume_train_context_reaches_max_steps[of example_restored example_container
      JiantRunner example_state]
  note i1 = inst[THEN conjunct1, rule_format]
  note i2 = inst[THEN conjunct2, rule_format, OF example_configured]
  have k: "global_steps example_restored \<le> max_steps example_container"
    by (simp add: example_restored_def example_container_def)
  have "dom (task_steps example_restored) = set (train_task_list example_container)"
    by (auto simp: example_restored_def example_container_def)
  from i2[THEN conjunct2, rule_format, OF this] obtain s' where
    fin: "consume JiantRunner example_container (Resumed example_restored) example_state =
            Some (Inr (), s')" by (elim exE)
  from i2[THEN conjunct1] obtain s0' where
    whole: "run_train JiantRunner example_container example_state = Some (Inr (), s0')"
    by (elim exE)
  have n: "nat (max_steps example_container - global_steps example_restored) = 1"
    by (simp add: example_restored_def example_container_def)
  have m: "max_steps example_container = 2" by (simp add: example_container_def)
  note a = i1[OF k fin]
  from a m have g: "global_steps (train_state s') = 2" by simp
  from a have "\<exists>g s1 g2. advance 1 JiantRunner example_container (Resumed example_restored)
                        example_state = Some (Inr (), g, s1) \<and>
            context_next JiantRunner example_container g s1 = Some (Inl StopIteration, g2, s')"
    unfolding n by (elim conjE)
  moreover have "0 \<le> max_steps example_container" by (simp add: m)
  from a[THEN conjunct2, THEN conjunct2, rule_format, OF this whole] g
  have "global_steps (train_state s0') = 2" by simp
  ultimately show ?thesis using k fin g whole by blast
qed

section \<open>The evaluation loss\<close>

lemma for_each_run_val_body:
  "\<exists>n acc' s'.
     for_each items (run_val_body tsk) (tot, nsteps, nex, acc) s =
       (Inr (tot + sum_list (map loss (stake (length items) (model_outputs s))),
             nsteps + int (length items), n, acc'), s') \<and>
     length acc' = length acc + length items"
proof (induction items arbitrary: tot nsteps nex acc s)
  case Nil
  show ?case by (simp add: stake_0)
next
  case (Cons item items)
  obtain b m where item: "item = (b, m)" by (cases item)
  let ?out = "model_outputs s 0"
  let ?s1 = "s\<lparr>model_outputs := shift 1 (model_outputs s),
               trace := trace s @ [Forward tsk False, AccumulatorUpdate (loss ?out)]\<rparr>"
  have one: "run_val_body tsk item (tot, nsteps, nex, acc) s =
      (Inr (tot + loss ?out, nsteps + 1, nex + int (batch_len b),
            acc @ [(logits ?out, loss ?out, b, m)]), ?s1)"
    by (simp add: run_val_body_def item and_then_def wrap_jiant_forward_def emit_def succeed_def)
  from Cons.IH[of "tot + loss ?out" "nsteps + 1" "nex + int (batch_len b)"
      "acc @ [(logits ?out, loss ?out, b, m)]" ?s1]
  obtain n acc' s' where
    r: "for_each items (run_val_body tsk)
          (tot + loss ?out, nsteps + 1, nex + int (batch_len b),
           acc @ [(logits ?out, loss ?out, b, m)]) ?s1 =
        (Inr (tot + loss ?out + sum_list (map loss (stake (length items) (model_outputs ?s1))),
              nsteps + 1 + int (length items), n, acc'), s')"
    and l: "length acc' = length (acc @ [(logits ?out, loss ?out, b, m)]) + length items"
    by blast
  have "for_each (item # items) (run_val_body tsk) (tot, nsteps, nex, acc) s =
      (Inr (tot + sum_list (map loss (stake (length (item # items)) (model_outputs s))),
            nsteps + int (length (item # items)), n, acc'), s')"
    using r by (simp add: one stake_Suc add.assoc)
  moreover have "length acc' = length acc + length (item # items)" using l by simp
  ultimately show ?case by blast
qed

text \<open>
  C4: on the primary role (\<open>local_rank = -1\<close>) and a non-empty evaluation stream of \<open>k\<close>
  batches, \<open>run_val\<close> returns an output whose loss is the sum of the \<open>k\<close> per-batch mean
  losses divided by \<open>k\<close>; the batch sizes do not enter. On any other role it returns nothing.
\<close>

theorem run_val_loss_is_mean_of_batch_losses:
  "(val_dataloader \<noteq> [] \<and> local_rank = - 1 \<longrightarrow>
      (\<exists>out s'. run_val scheme val_dataloader val_labels tsk local_rank return_preds s =
                   (Inr (Some out), s') \<and>
         out_loss out =
           sum_list (map loss (stake (length val_dataloader) (model_outputs s)))
           / real (length val_dataloader))) \<and>
   (local_rank \<noteq> - 1 \<longrightarrow>
      run_val scheme val_dataloader val_labels tsk local_rank return_preds s = (Inr None, s))"
proof (intro conjI impI)
  assume a: "val_dataloader \<noteq> [] \<and> local_rank = - 1"
  let ?s0 = "s\<lparr>trace := trace s @ [ModelEval]\<rparr>"
  from for_each_run_val_body[of val_dataloader tsk 0 0 0 "[]" ?s0]
  obtain n acc' s' where
    r: "for_each val_dataloader (run_val_body tsk) (0, 0, 0, []) ?s0 =
         (Inr (0 + sum_list (map loss (stake (length val_dataloader) (model_outputs ?s0))),
               0 + int (length val_dataloader), n, acc'), s')" by blast
  from a have k: "int (length val_dataloader) \<noteq> 0" by simp
  show "\<exists>out s'. run_val scheme val_dataloader val_labels tsk local_rank return_preds s =
                   (Inr (Some out), s') \<and>
         out_loss out =
           sum_list (map loss (stake (length val_dataloader) (model_outputs s)))
           / real (length val_dataloader)"
    using a k r
    by (simp add: run_val_def and_then_def emit_def py_div_def succeed_def)
next
  assume "local_rank \<noteq> - 1"
  then show "run_val scheme val_dataloader val_labels tsk local_rank return_preds s = (Inr None, s)"
    by (simp add: run_val_def succeed_def)
qed

theorem run_val_loss_is_mean_of_batch_losses_witness:
  "example_val_dataloader \<noteq> [] \<and>
   (\<exists>out s'. run_val example_scheme example_val_dataloader [0, 1, 0, 1] (Task ''rte'') (- 1)
                False example_val_state = (Inr (Some out), s') \<and>
      out_loss out = (1 + 5) / 2 \<and>
      out_loss out \<noteq> size_weighted_mean [(1, 1), (3, 5)]) \<and>
   run_val example_scheme example_val_dataloader [0, 1, 0, 1] (Task ''rte'') 0
     False example_val_state = (Inr None, example_val_state)"
proof -
  have ne: "example_val_dataloader \<noteq> [] \<and> (- 1 :: int) = - 1"
    by (simp add: example_val_dataloader_def)
  from run_val_loss_is_mean_of_batch_losses[of example_val_dataloader "- 1" example_scheme
      "[0, 1, 0, 1]" "Task ''rte''" False example_val_state, THEN conjunct1, rule_format, OF ne]
  obtain out s' where
    r: "run_val example_scheme example_val_dataloader [0, 1, 0, 1] (Task ''rte'') (- 1)
          False example_val_state = (Inr (Some out), s')"
    and l: "out_loss out =
           sum_list (map loss (stake (length example_val_dataloader) (model_outputs example_val_state)))
           / real (length example_val_dataloader)"
    by (elim exE conjE)
  have "out_loss out = (1 + 5) / 2"
    unfolding l
    by (simp add: example_val_dataloader_def example_val_state_def stake_Suc stake_0 shift_def
        numeral_2_eq_2)
  moreover have "size_weighted_mean [(1, 1), (3, 5)] = 4"
    by (simp add: size_weighted_mean_def)
  moreover have "(0::int) \<noteq> - 1" by simp
  from run_val_loss_is_mean_of_batch_losses[of example_val_dataloader 0 example_scheme
      "[0, 1, 0, 1]" "Task ''rte''" False example_val_state, THEN conjunct2, rule_format, OF this]
  have "run_val example_scheme example_val_dataloader [0, 1, 0, 1] (Task ''rte'') 0
     False example_val_state = (Inr None, example_val_state)" .
  ultimately show ?thesis using r ne by auto
qed

section \<open>The step of the Reptile runner\<close>

lemma for_range_add:
  "for_range (a + b) body acc s =
     (case for_range a body acc s of
        (Inl e, s') \<Rightarrow> (Inl e, s')
      | (Inr x, s') \<Rightarrow> for_range b body x s')"
  by (induction a arbitrary: acc s) (auto split: prod.splits sum.splits)

lemma for_range_for_range:
  "for_range m (for_range n body) acc s = for_range (m * n) body acc s"
proof (induction m arbitrary: acc s)
  case 0
  show ?case by simp
next
  case (Suc m)
  show ?case
    by (simp add: for_range_add Suc.IH split: prod.splits sum.splits)
qed

lemma inner_round_Inr:
  assumes "inner_round c t tsk gas num acc s = (Inr x, s1)"
  shows "x = acc + loss_sum c gas (stake (nat num * nat gas) (model_outputs s)) \<and>
     trace s1 = trace s @
       micro_batch_events t tsk gas (stake (nat num * nat gas) (model_outputs s)) @ [InnerStep] \<and>
     model_outputs s1 = shift (nat num * nat gas) (model_outputs s) \<and>
     train_state s1 = train_state s \<and> task_sampler s1 = task_sampler s"
proof -
  from assms obtain y s2 where
    loop: "for_range (nat num * nat gas) (micro_batch c t tsk gas) acc s = (Inr y, s2)"
    and rest: "and_then (emit InnerStep) (\<lambda>_. succeed y) s2 = (Inr x, s1)"
    by (auto simp: inner_round_def for_range_for_range and_then_def
        split: prod.splits sum.splits)
  from for_range_micro_batch_cases[OF loop] rest show ?thesis
    by (auto simp: and_then_def emit_def succeed_def)
qed

lemma for_range_inner_round_Inr:
  "for_range i (inner_round c t tsk gas num) acc s = (Inr x, s1) \<Longrightarrow>
     x = acc + loss_sum c gas (stake (i * (nat num * nat gas)) (model_outputs s)) \<and>
     trace s1 = trace s @
       inner_loop_events i (nat num * nat gas) t tsk gas (model_outputs s) \<and>
     train_state s1 = train_state s \<and> task_sampler s1 = task_sampler s"
proof (induction i arbitrary: acc s)
  case 0
  then show ?case by (simp add: stake_0 loss_sum_def)
next
  case (Suc i)
  from Suc.prems obtain y s2 where
    one: "inner_round c t tsk gas num acc s = (Inr y, s2)" and
    rest: "for_range i (inner_round c t tsk gas num) y s2 = (Inr x, s1)"
    by (auto split: prod.splits sum.splits)
  note a = inner_round_Inr[OF one]
  note b = Suc.IH[OF rest]
  from a b show ?case
    by (simp add: stake_add loss_sum_append)
qed

lemma filter_micro_batch_events:
  "filter optimizer_call (micro_batch_events t tsk gas outs) = []"
  by (induction outs) (simp_all add: micro_batch_events_def optimizer_call_def)

lemma filter_inner_loop_events:
  "filter optimizer_call (inner_loop_events i m t tsk gas outs) = replicate i InnerStep"
  by (induction i arbitrary: outs)
     (simp_all add: filter_micro_batch_events, simp add: optimizer_call_def)

text \<open>
  C8: a call of the Reptile runner's \<open>run_train_step\<close> that returns has called
  \<open>inner_begin\<close>, then run \<open>inner_steps\<close> rounds, each of
  \<open>num_sampled_tasks * gradient_accumulation_steps\<close> micro-batches followed by one
  \<open>inner_step\<close>, then \<open>inner_end\<close>, then exactly one optimizer step and one \<open>zero_grad\<close>; and the
  loss it logs is the sum of the losses \<open>complex_backpropagate\<close> returned, divided by
  \<open>gradient_accumulation_steps * num_sampled_tasks * inner_steps\<close>.
\<close>

theorem reptile_run_train_step_calls:
  assumes run: "run_train_step_reptile c inner_steps num_sampled_tasks s = (Inr u, s')"
    and drawn: "task_sampler s 0 = (t, tsk)"
  shows "\<exists>cfg k evs. task_specific_configs c t = Some cfg \<and>
           task_steps (train_state s) t = Some k \<and>
           gradient_accumulation_steps cfg \<noteq> 0 \<and> num_sampled_tasks \<noteq> 0 \<and> inner_steps \<noteq> 0 \<and>
           evs = [ModelTrain, SamplerPop t, InnerBegin] @
             inner_loop_events (nat inner_steps)
               (nat num_sampled_tasks * nat (gradient_accumulation_steps cfg)) t tsk
               (gradient_accumulation_steps cfg) (model_outputs s) @
             [InnerEnd, OptStep, ZeroGrad,
              WriteEntry ''loss_train''
                \<lparr>log_task = t, log_task_step = k + 1,
                 log_global_step = global_steps (train_state s) + 1,
                 log_loss_val =
                   loss_sum c (gradient_accumulation_steps cfg)
                     (stake (nat inner_steps *
                        (nat num_sampled_tasks * nat (gradient_accumulation_steps cfg)))
                        (model_outputs s))
                   / (real_of_int (gradient_accumulation_steps cfg) *
                      real_of_int num_sampled_tasks * real_of_int inner_steps),
                 log_rl_loss = None\<rparr>] \<and>
           trace s' = trace s @ evs \<and>
           filter optimizer_call evs =
             InnerBegin # replicate (nat inner_steps) InnerStep @ [InnerEnd, OptStep, ZeroGrad]"
proof -
  let ?s1 = "s\<lparr>task_sampler := shift 1 (task_sampler s),
                 trace := trace s @ [ModelTrain, SamplerPop t, InnerBegin]\<rparr>"
  obtain cfg where cfg: "task_specific_configs c t = Some cfg"
    using run drawn
    by (cases "task_specific_configs c t")
       (auto simp: run_train_step_reptile_def and_then_def emit_def sampler_pop_def lookup_def
          raise_def Let_def)
  let ?gas = "gradient_accumulation_steps cfg"
  obtain x s2 where loop:
    "for_range (nat inner_steps) (inner_round c t tsk ?gas num_sampled_tasks) 0 ?s1 = (Inr x, s2)"
    using run drawn cfg
    by (cases "for_range (nat inner_steps) (inner_round c t tsk ?gas num_sampled_tasks) 0 ?s1")
       (auto simp: run_train_step_reptile_def and_then_def emit_def sampler_pop_def lookup_def
          succeed_def Let_def split: sum.splits)
  note l = for_range_inner_round_Inr[OF loop]
  obtain k where k: "task_steps (train_state s) t = Some k"
    using run drawn cfg loop l
    by (cases "task_steps (train_state s) t")
       (auto simp: run_train_step_reptile_def and_then_def emit_def sampler_pop_def lookup_def
          succeed_def Let_def optimizer_step_def zero_grad_def train_state_step_def step_def)
  have nz: "?gas \<noteq> 0 \<and> num_sampled_tasks \<noteq> 0 \<and> inner_steps \<noteq> 0"
    using run drawn cfg loop l k
    by (auto simp: run_train_step_reptile_def and_then_def emit_def sampler_pop_def lookup_def
          succeed_def Let_def optimizer_step_def zero_grad_def train_state_step_def step_def
          py_div_def raise_def split: if_splits)
  have tr: "trace s' = trace s @ [ModelTrain, SamplerPop t, InnerBegin] @
             inner_loop_events (nat inner_steps) (nat num_sampled_tasks * nat ?gas) t tsk
               ?gas (model_outputs s) @
             [InnerEnd, OptStep, ZeroGrad,
              WriteEntry ''loss_train''
                \<lparr>log_task = t, log_task_step = k + 1,
                 log_global_step = global_steps (train_state s) + 1,
                 log_loss_val =
                   loss_sum c ?gas
                     (stake (nat inner_steps * (nat num_sampled_tasks * nat ?gas))
                        (model_outputs s))
                   / (real_of_int ?gas * real_of_int num_sampled_tasks * real_of_int inner_steps),
                 log_rl_loss = None\<rparr>]"
    using run drawn cfg loop l k nz
    by (auto simp: run_train_step_reptile_def and_then_def emit_def sampler_pop_def lookup_def
          succeed_def Let_def optimizer_step_def zero_grad_def train_state_step_def step_def
          py_div_def shift_def)
  show ?thesis
    using cfg k nz tr
    by (simp add: filter_inner_loop_events optimizer_call_def)
qed

lemma for_range_inner_round_succeeds:
  "train_dataloader_dict s t = Some st \<Longrightarrow>
     \<exists>x s1 st1. for_range i (inner_round c t tsk gas num) acc s = (Inr x, s1) \<and>
        train_dataloader_dict s1 t = Some st1"
proof (induction i arbitrary: acc s st)
  case 0
  then show ?case by simp
next
  case (Suc i)
  let ?m = "nat num * nat gas"
  let ?s2 = "s\<lparr>train_dataloader_dict := (train_dataloader_dict s)(t \<mapsto> shift ?m st),
       model_outputs := shift ?m (model_outputs s),
       grads := grads s @ map (\<lambda>out. LossGrad (loss out) gas) (stake ?m (model_outputs s)),
       trace := trace s @ micro_batch_events t tsk gas (stake ?m (model_outputs s)) @ [InnerStep]\<rparr>"
  have one: "inner_round c t tsk gas num acc s =
      (Inr (acc + loss_sum c gas (stake ?m (model_outputs s))), ?s2)"
    by (simp add: inner_round_def for_range_for_range for_range_micro_batch[OF Suc.prems]
        and_then_def emit_def succeed_def)
  have "train_dataloader_dict ?s2 t = Some (shift ?m st)" by simp
  from Suc.IH[OF this] obtain x s1 st1 where
    "for_range i (inner_round c t tsk gas num)
       (acc + loss_sum c gas (stake ?m (model_outputs s))) ?s2 = (Inr x, s1)"
    "train_dataloader_dict s1 t = Some st1" by blast
  then show ?case using one by auto
qed

lemma run_train_step_reptile_succeeds:
  assumes drawn: "task_sampler s 0 = (t, tsk)"
    and cfg: "task_specific_configs c t = Some cfg"
    and nz: "gradient_accumulation_steps cfg \<noteq> 0" "num_sampled_tasks \<noteq> 0" "inner_steps \<noteq> 0"
    and dl: "train_dataloader_dict s t = Some st"
    and k: "task_steps (train_state s) t = Some k"
  shows "\<exists>s'. run_train_step_reptile c inner_steps num_sampled_tasks s = (Inr (), s')"
proof -
  let ?s1 = "s\<lparr>task_sampler := shift (Suc 0) (task_sampler s),
               trace := trace s @ [ModelTrain, SamplerPop t, InnerBegin]\<rparr>"
  have "train_dataloader_dict ?s1 t = Some st" using dl by simp
  from for_range_inner_round_succeeds[OF this, of "nat inner_steps" c tsk
      "gradient_accumulation_steps cfg" num_sampled_tasks 0]
  obtain x s2 where
    loop: "for_range (nat inner_steps)
             (inner_round c t tsk (gradient_accumulation_steps cfg) num_sampled_tasks) 0 ?s1 =
           (Inr x, s2)" by blast
  from for_range_inner_round_Inr[OF loop] have "train_state s2 = train_state s" by simp
  with drawn cfg nz k loop show ?thesis
    by (simp add: run_train_step_reptile_def and_then_def emit_def sampler_pop_def lookup_def
        succeed_def Let_def optimizer_step_def zero_grad_def train_state_step_def step_def
        py_div_def)
qed

theorem reptile_run_train_step_calls_witness:
  "\<exists>s'. run_train_step_reptile example_container 2 1 example_state = (Inr (), s') \<and>
        task_sampler example_state 0 = (''rte'', Task ''rte'') \<and>
        trace s' =
          [ModelTrain, SamplerPop ''rte'', InnerBegin,
           StreamPop ''rte'', Forward (Task ''rte'') False, Backprop 4 2,
           StreamPop ''rte'', Forward (Task ''rte'') False, Backprop 4 2,
           InnerStep,
           StreamPop ''rte'', Forward (Task ''rte'') False, Backprop 4 2,
           StreamPop ''rte'', Forward (Task ''rte'') False, Backprop 4 2,
           InnerStep,
           InnerEnd, OptStep, ZeroGrad,
           WriteEntry ''loss_train''
             \<lparr>log_task = ''rte'', log_task_step = 1, log_global_step = 1, log_loss_val = 2,
              log_rl_loss = None\<rparr>]"
proof -
  have drawn: "task_sampler example_state 0 = (''rte'', Task ''rte'')"
    by (simp add: example_state_def)
  have cfg: "task_specific_configs example_container ''rte'' =
      Some \<lparr>gradient_accumulation_steps = 2, train_batch_size = 2\<rparr>"
    by (simp add: example_container_def)
  have "\<exists>s'. run_train_step_reptile example_container 2 1 example_state = (Inr (), s')"
    by (rule run_train_step_reptile_succeeds[OF drawn cfg, where st=example_stream and k=0])
       (simp_all add: example_state_def from_task_name_list_def)
  then obtain s' where
    run: "run_train_step_reptile example_container 2 1 example_state = (Inr (), s')" by blast
  have two: "nat 2 = Suc (Suc 0)" "nat 1 = Suc 0" by simp_all
  from reptile_run_train_step_calls[OF run drawn] show ?thesis
    using run drawn
    by (auto simp: cfg example_state_def from_task_name_list_def
        micro_batch_events_def loss_sum_def stake_Suc stake_0 two shift_def
        example_container_def eval_nat_numeral)
qed

section \<open>The step of the DDS runner\<close>

lemma emits_succeed [emits_intros]: "emits_only P (succeed x)"
  by (simp add: emits_only_def succeed_def)

lemma emits_raise [emits_intros]: "emits_only P (raise e)"
  by (simp add: emits_only_def raise_def)

lemma emits_emit [emits_intros]: "P e \<Longrightarrow> emits_only P (emit e)"
  by (auto simp: emits_only_def emit_def)

lemma emits_lookup [emits_intros]: "emits_only P (lookup d k)"
  by (auto simp: emits_only_def lookup_def raise_def succeed_def split: option.splits)

lemma emits_py_div [emits_intros]: "emits_only P (py_div x n)"
  by (auto simp: emits_only_def py_div_def raise_def succeed_def)

lemma emits_sampler_pop [emits_intros]: "(\<And>t. P (SamplerPop t)) \<Longrightarrow> emits_only P sampler_pop"
  by (auto simp: emits_only_def sampler_pop_def Let_def)

lemma emits_dataloader_pop [emits_intros]: "P (StreamPop t) \<Longrightarrow> emits_only P (dataloader_pop t)"
  by (auto simp: emits_only_def dataloader_pop_def split: option.splits)

lemma emits_wrap_jiant_forward [emits_intros]:
  "P (Forward t u) \<Longrightarrow> emits_only P (wrap_jiant_forward b t u)"
  by (auto simp: emits_only_def wrap_jiant_forward_def)

lemma emits_complex_backpropagate [emits_intros]:
  "P (Backprop l gas) \<Longrightarrow> emits_only P (complex_backpropagate c l gas)"
  by (auto simp: emits_only_def complex_backpropagate_def)

lemma emits_optimizer_step [emits_intros]: "P OptStep \<Longrightarrow> emits_only P optimizer_step"
  by (auto simp: emits_only_def optimizer_step_def)

lemma emits_zero_grad [emits_intros]: "P ZeroGrad \<Longrightarrow> emits_only P zero_grad"
  by (auto simp: emits_only_def zero_grad_def)

lemma emits_train_state_step [emits_intros]: "emits_only P (train_state_step t)"
  by (auto simp: emits_only_def train_state_step_def split: sum.splits)

lemma emits_dds_weights_forward [emits_intros]:
  "P WeightsForward \<Longrightarrow> emits_only P (dds_weights_forward b)"
  by (auto simp: emits_only_def dds_weights_forward_def)

lemma emits_dds_optimizer_step [emits_intros]:
  "P WeightingTrain \<Longrightarrow> P WeightsForward \<Longrightarrow> P DDSOptStep \<Longrightarrow> P DDSZeroGrad \<Longrightarrow>
     emits_only P (dds_optimizer_step b rw)"
  by (auto simp: emits_only_def dds_optimizer_step_def)

lemma emits_and_then [emits_intros]:
  assumes "emits_only P m" "\<And>x. emits_only P (f x)"
  shows "emits_only P (and_then m f)"
  unfolding emits_only_def
proof (intro allI impI)
  fix s r s'
  assume a: "and_then m f s = (r, s')"
  obtain r1 s1 where m: "m s = (r1, s1)" by (cases "m s")
  with assms(1) obtain evs1 where e1: "trace s1 = trace s @ evs1" "\<forall>e \<in> set evs1. P e"
    unfolding emits_only_def by blast
  show "\<exists>evs. trace s' = trace s @ evs \<and> (\<forall>e \<in> set evs. P e)"
  proof (cases r1)
    case (Inl e)
    with a m have "s' = s1" by (simp add: and_then_def)
    with e1 show ?thesis by blast
  next
    case (Inr x)
    with a m have "f x s1 = (r, s')" by (simp add: and_then_def)
    with assms(2)[of x] obtain evs2 where "trace s' = trace s1 @ evs2" "\<forall>e \<in> set evs2. P e"
      unfolding emits_only_def by blast
    with e1 have "trace s' = trace s @ (evs1 @ evs2) \<and> (\<forall>e \<in> set (evs1 @ evs2). P e)"
      by auto
    then show ?thesis by blast
  qed
qed

lemma emits_if [emits_intros]:
  "(b \<Longrightarrow> emits_only P m) \<Longrightarrow> (\<not> b \<Longrightarrow> emits_only P n) \<Longrightarrow> emits_only P (if b then m else n)"
  by simp

lemma emits_case_prod [emits_intros]:
  "(\<And>a b. emits_only P (f a b)) \<Longrightarrow> emits_only P (case p of (a, b) \<Rightarrow> f a b)"
  by (cases p) simp

lemma emits_case_option [emits_intros]:
  "emits_only P m \<Longrightarrow> (\<And>a. emits_only P (f a)) \<Longrightarrow>
     emits_only P (case x of None \<Rightarrow> m | Some a \<Rightarrow> f a)"
  by (cases x) simp_all

lemma emits_let [emits_intros]: "emits_only P (f x) \<Longrightarrow> emits_only P (let y = x in f y)"
  by simp

lemma emits_for_range [emits_intros]:
  assumes "\<And>a. emits_only P (body a)"
  shows "emits_only P (for_range n body acc)"
proof (induction n arbitrary: acc)
  case 0
  show ?case by (simp add: emits_only_def)
next
  case (Suc n)
  have "for_range (Suc n) body acc = and_then (body acc) (for_range n body)"
    by (simp add: fun_eq_iff and_then_def)
  then show ?case using assms Suc.IH by (simp add: emits_and_then)
qed

lemma emits_for_each [emits_intros]:
  assumes "\<And>x a. emits_only P (body x a)"
  shows "emits_only P (for_each xs body acc)"
proof (induction xs arbitrary: acc)
  case Nil
  show ?case by (simp add: emits_only_def)
next
  case (Cons x xs)
  have "for_each (x # xs) body acc = and_then (body x acc) (for_each xs body)"
    by (simp add: fun_eq_iff and_then_def)
  then show ?case using assms Cons.IH by (simp add: emits_and_then)
qed

lemma emits_reading: "(\<And>s0. emits_only P (f s0)) \<Longrightarrow> emits_only P (\<lambda>s. f s s)"
  by (auto simp: emits_only_def)

lemma emits_micro_batch [emits_intros]:
  "P (StreamPop t) \<Longrightarrow> P (Forward tsk False) \<Longrightarrow> (\<And>l. P (Backprop l gas)) \<Longrightarrow>
     emits_only P (micro_batch c t tsk gas acc)"
  unfolding micro_batch_def by (intro emits_intros)

lemma emits_run_one_batch [emits_intros]:
  assumes "\<And>e. \<not> is_log e \<Longrightarrow> P e"
  shows "emits_only P (run_one_batch c p t tsk tg)"
  unfolding run_one_batch_def run_one_batch_body_def
  by (intro emits_intros assms) (simp_all add: is_log_def)

lemma emits_dds_main_step: "emits_only (\<lambda>e. \<not> is_log e) (dds_main_step c p t tsk)"
  unfolding dds_main_step_def
  by (intro emits_intros) (simp_all add: is_log_def)

lemma steps_last_step:
  "steps_last (and_then (train_state_step t) (\<lambda>_. succeed x))"
  by (auto simp: steps_last_def and_then_def train_state_step_def succeed_def
      split: sum.splits prod.splits)

lemma steps_last_after_quiet:
  assumes "quiet m" "\<And>x. steps_last (f x)"
  shows "steps_last (and_then m f)"
  unfolding steps_last_def
proof (intro allI impI)
  fix s r s'
  assume a: "and_then m f s = (r, s')"
  obtain r1 s1 where m: "m s = (r1, s1)" by (cases "m s")
  with assms(1) have q: "train_state s1 = train_state s" by (simp add: quiet_def)
  show "case r of Inl e \<Rightarrow> train_state s' = train_state s
        | Inr x \<Rightarrow> \<exists>t. step (train_state s) t = Inr (train_state s')"
  proof (cases r1)
    case (Inl e)
    with a m q show ?thesis by (auto simp: and_then_def)
  next
    case (Inr x)
    with a m have "f x s1 = (r, s')" by (simp add: and_then_def)
    with assms(2)[of x] have
      "case r of Inl e \<Rightarrow> train_state s' = train_state s1
       | Inr x \<Rightarrow> \<exists>t. step (train_state s1) t = Inr (train_state s')"
      unfolding steps_last_def by blast
    with q show ?thesis by (cases r) simp_all
  qed
qed

lemma steps_last_raise: "steps_last (raise e)"
  by (simp add: steps_last_def raise_def)

lemma steps_last_if:
  "(b \<Longrightarrow> steps_last m) \<Longrightarrow> (\<not> b \<Longrightarrow> steps_last n) \<Longrightarrow> steps_last (if b then m else n)"
  by simp

lemma steps_last_case_prod:
  "(\<And>a b. steps_last (f a b)) \<Longrightarrow> steps_last (case p of (a, b) \<Rightarrow> f a b)"
  by (cases p) simp

lemma steps_last_dds_main_step: "steps_last (dds_main_step c p t tsk)"
  unfolding dds_main_step_def
  by (intro steps_last_after_quiet steps_last_case_prod steps_last_if steps_last_raise
      steps_last_step quiet_intros)

lemma run_train_step_dds_Some:
  assumes "run_train_step_dds c p s = Some (res, s')"
  shows "\<exists>t tsk n.
     t \<noteq> dds_target_task p \<and>
     (\<forall>i<n. fst (task_sampler s i) = dds_target_task p) \<and>
     task_sampler s n = (t, tsk) \<and>
     dds_after_sampling c p t tsk
       (s\<lparr>task_sampler := shift (Suc n) (task_sampler s),
          trace := trace s @ ModelTrain # map SamplerPop (replicate n (dds_target_task p) @ [t])\<rparr>)
       = (res, s')"
proof -
  from assms obtain t tsk s0 where
    smp: "sample_non_target (dds_target_task p) (s\<lparr>trace := trace s @ [ModelTrain]\<rparr>) =
            Some ((t, tsk), s0)"
    and rest: "dds_after_sampling c p t tsk s0 = (res, s')"
    by (auto simp: run_train_step_dds_def split: option.splits prod.splits)
  from sample_non_target_Some[OF smp] obtain n where
    ne: "t \<noteq> dds_target_task p" and
    before: "\<forall>i<n. fst (task_sampler s i) = dds_target_task p" and
    at: "task_sampler s n = (t, tsk)" and
    s0: "s0 = s\<lparr>task_sampler := shift (Suc n) (task_sampler s),
          trace := trace s @ ModelTrain # map SamplerPop (replicate n (dds_target_task p) @ [t])\<rparr>"
    by auto
  from rest[unfolded s0] ne before at show ?thesis by blast
qed

lemma run_train_step_dds_returns:
  assumes "fst (task_sampler s n) \<noteq> dds_target_task p"
  shows "\<exists>y. run_train_step_dds c p s = Some y"
proof -
  have "fst (task_sampler (s\<lparr>trace := trace s @ [ModelTrain]\<rparr>) n) \<noteq> dds_target_task p"
    using assms by simp
  from sample_non_target_returns[OF this] obtain y where
    "sample_non_target (dds_target_task p) (s\<lparr>trace := trace s @ [ModelTrain]\<rparr>) = Some y"
    by blast
  then show ?thesis
    by (cases y) (auto simp: run_train_step_dds_def split: prod.splits)
qed

lemma run_train_step_dds_diverges:
  assumes "\<forall>n. fst (task_sampler s n) = dds_target_task p"
  shows "run_train_step_dds c p s = None"
proof (cases "run_train_step_dds c p s")
  case None
  then show ?thesis .
next
  case (Some y)
  obtain res s' where "y = (res, s')" by (cases y)
  with Some run_train_step_dds_Some[of c p s res s'] assms show ?thesis
    by (metis fst_conv)
qed

text \<open>
  C5: when a call of the DDS runner's \<open>run_train_step\<close> returns or raises, the sampler was
  polled \<open>n + 1\<close> times, the first \<open>n\<close> draws were the target task, the last draw \<open>t\<close> is not the
  target task, and the rest of the step (the main batch, the optimizer step, the train
  state, the logs) runs for \<open>t\<close>. The call gets there as soon as the sampler ever draws a
  task other than the target; if it never does, the sampling loop does not end.
\<close>

theorem dds_main_task_is_not_target:
  "(\<forall>res s'. run_train_step_dds c p s = Some (res, s') \<longrightarrow>
      (\<exists>t tsk n.
         t \<noteq> dds_target_task p \<and>
         (\<forall>i<n. fst (task_sampler s i) = dds_target_task p) \<and>
         task_sampler s n = (t, tsk) \<and>
         dds_after_sampling c p t tsk
           (s\<lparr>task_sampler := shift (Suc n) (task_sampler s),
              trace := trace s @
                ModelTrain # map SamplerPop (replicate n (dds_target_task p) @ [t])\<rparr>)
           = (res, s'))) \<and>
   ((\<exists>n. fst (task_sampler s n) \<noteq> dds_target_task p) \<longrightarrow>
      (\<exists>y. run_train_step_dds c p s = Some y)) \<and>
   ((\<forall>n. fst (task_sampler s n) = dds_target_task p) \<longrightarrow> run_train_step_dds c p s = None)"
proof -
  have p1: "\<forall>res s'. run_train_step_dds c p s = Some (res, s') \<longrightarrow>
      (\<exists>t tsk n.
         t \<noteq> dds_target_task p \<and>
         (\<forall>i<n. fst (task_sampler s i) = dds_target_task p) \<and>
         task_sampler s n = (t, tsk) \<and>
         dds_after_sampling c p t tsk
           (s\<lparr>task_sampler := shift (Suc n) (task_sampler s),
              trace := trace s @
                ModelTrain # map SamplerPop (replicate n (dds_target_task p) @ [t])\<rparr>)
           = (res, s'))"
    using run_train_step_dds_Some by (intro allI impI)
  have p2: "(\<exists>n. fst (task_sampler s n) \<noteq> dds_target_task p) \<longrightarrow>
      (\<exists>y. run_train_step_dds c p s = Some y)"
    using run_train_step_dds_returns by blast
  have p3: "(\<forall>n. fst (task_sampler s n) = dds_target_task p) \<longrightarrow>
      run_train_step_dds c p s = None"
    using run_train_step_dds_diverges by blast
  show ?thesis by (rule conjI[OF p1 conjI[OF p2 p3]])
qed

lemma example_dds_drawn:
  assumes "t \<noteq> ''rte''" "\<forall>i<n. fst (task_sampler example_dds_state i) = ''rte''"
    "task_sampler example_dds_state n = (t, tsk)"
  shows "n = 1 \<and> t = ''mnli'' \<and> tsk = Task ''mnli''"
proof -
  have n0: "n \<noteq> 0" using assms(1,3)
    by (auto simp: example_dds_state_def split: if_splits)
  have "\<not> 1 < n"
  proof
    assume "1 < n"
    with assms(2) have "fst (task_sampler example_dds_state 1) = ''rte''" by blast
    then show False by (simp add: example_dds_state_def)
  qed
  with n0 have "n = 1" by simp
  with assms(3) show ?thesis by (auto simp: example_dds_state_def)
qed

theorem dds_main_task_is_not_target_witness:
  "fst (task_sampler example_dds_state 1) \<noteq> dds_target_task example_dds_params \<and>
   (\<exists>res s'. run_train_step_dds example_container example_dds_params example_dds_state =
       Some (res, s') \<and>
     dds_after_sampling example_container example_dds_params ''mnli'' (Task ''mnli'')
       (example_dds_state\<lparr>task_sampler := shift 2 (task_sampler example_dds_state),
          trace := [ModelTrain, SamplerPop ''rte'', SamplerPop ''mnli'']\<rparr>) = (res, s')) \<and>
   run_train_step_dds example_container example_dds_params example_state = None"
proof -
  note inst = dds_main_task_is_not_target[of example_container example_dds_params
      example_dds_state]
  note i1 = inst[THEN conjunct1, rule_format]
  note i2 = inst[THEN conjunct2, THEN conjunct1, rule_format]
  have ne: "fst (task_sampler example_dds_state 1) \<noteq> dds_target_task example_dds_params"
    by (simp add: example_dds_state_def example_dds_params_def)
  then have "\<exists>n. fst (task_sampler example_dds_state n) \<noteq> dds_target_task example_dds_params"
    by blast
  from i2[OF this] obtain res s' where
    run: "run_train_step_dds example_container example_dds_params example_dds_state =
            Some (res, s')" by auto
  have tg: "dds_target_task example_dds_params = ''rte''" by (simp add: example_dds_params_def)
  from i1[OF run] obtain t tsk n where
    a: "t \<noteq> ''rte''" "\<forall>i<n. fst (task_sampler example_dds_state i) = ''rte''"
       "task_sampler example_dds_state n = (t, tsk)" and
    b: "dds_after_sampling example_container example_dds_params t tsk
          (example_dds_state\<lparr>task_sampler := shift (Suc n) (task_sampler example_dds_state),
             trace := trace example_dds_state @
               ModelTrain # map SamplerPop (replicate n ''rte'' @ [t])\<rparr>) = (res, s')"
    unfolding tg by blast
  from example_dds_drawn[OF a] have n: "n = 1" "t = ''mnli''" "tsk = Task ''mnli''" by simp_all
  have tr: "trace example_dds_state = []" by (simp add: example_dds_state_def example_state_def)
  have "dds_after_sampling example_container example_dds_params ''mnli'' (Task ''mnli'')
       (example_dds_state\<lparr>task_sampler := shift 2 (task_sampler example_dds_state),
          trace := [ModelTrain, SamplerPop ''rte'', SamplerPop ''mnli'']\<rparr>) = (res, s')"
    using b unfolding n tr by (simp add: numeral_2_eq_2)
  moreover have "\<forall>n. fst (task_sampler example_state n) = dds_target_task example_dds_params"
    by (simp add: example_state_def example_dds_params_def)
  from dds_main_task_is_not_target[of example_container example_dds_params example_state,
      THEN conjunct2, THEN conjunct2, THEN mp, OF this]
  have "run_train_step_dds example_container example_dds_params example_state = None" .
  ultimately show ?thesis using ne run by blast
qed

lemma dds_after_sampling_train_state:
  assumes m: "dds_main_step c p t tsk s0 = (Inr r, s1)"
    and rest: "dds_after_sampling c p t tsk s0 = (res, s')"
  shows "train_state s' = train_state s1 \<and>
         (\<exists>cfg b ids ws lv. r = (cfg, b, ids, ws, lv) \<and>
            and_then (dds_periodic_update c p b) (dds_log_step t cfg ids ws lv) s1 = (res, s'))"
proof -
  obtain cfg b ids ws lv where r: "r = (cfg, b, ids, ws, lv)" by (cases r) auto
  from rest m r have
    tail: "and_then (dds_periodic_update c p b) (dds_log_step t cfg ids ws lv) s1 = (res, s')"
    by (simp add: dds_after_sampling_def and_then_def)
  have "quiet (and_then (dds_periodic_update c p b) (dds_log_step t cfg ids ws lv))"
    by (intro quiet_intros)
  with tail have "train_state s' = train_state s1" by (simp add: quiet_def)
  with r tail show ?thesis by blast
qed

lemma dds_after_sampling_off_period:
  assumes rest: "dds_after_sampling c p t tsk s0 = (res, s')"
    and freq: "dds_update_freq p \<noteq> 0"
    and reached: "global_steps (train_state s') = global_steps (train_state s0) + 1"
    and off: "global_steps (train_state s') mod dds_update_freq p \<noteq> 0"
  shows "res = Inl (UnboundLocalError ''rewards'') \<and>
         (\<exists>evs. trace s' = trace s0 @ evs \<and> (\<forall>e \<in> set evs. \<not> is_log e))"
proof -
  obtain r1 s1 where m: "dds_main_step c p t tsk s0 = (r1, s1)"
    by (cases "dds_main_step c p t tsk s0")
  from emits_dds_main_step[of c p t tsk] m obtain evs where
    evs: "trace s1 = trace s0 @ evs" "\<forall>e \<in> set evs. \<not> is_log e"
    unfolding emits_only_def by blast
  show ?thesis
  proof (cases r1)
    case (Inl e)
    with m rest have "s' = s1" by (simp add: dds_after_sampling_def and_then_def)
    moreover from steps_last_dds_main_step[unfolded steps_last_def, rule_format, OF m] Inl
    have "train_state s1 = train_state s0" by simp
    ultimately show ?thesis using reached by simp
  next
    case (Inr r)
    from dds_after_sampling_train_state[OF m[unfolded Inr] rest] obtain cfg b ids ws lv where
      ts: "train_state s' = train_state s1" and
      tail: "and_then (dds_periodic_update c p b) (dds_log_step t cfg ids ws lv) s1 = (res, s')"
      by blast
    from off ts have "global_steps (train_state s1) mod dds_update_freq p \<noteq> 0" by simp
    with freq have "dds_periodic_update c p b s1 = (Inr None, s1)"
      by (simp add: dds_periodic_update_def succeed_def)
    with tail have "res = Inl (UnboundLocalError ''rewards'')" "s' = s1"
      by (simp_all add: and_then_def dds_log_step_def raise_def)
    with evs show ?thesis by blast
  qed
qed

text \<open>
  C10: a call of the DDS runner's \<open>run_train_step\<close> that got as far as advancing the train
  state, with \<open>dds_update_freq\<close> not zero and the advanced \<open>global_steps\<close> not a multiple of
  it, raises the unbound-local error for \<open>rewards\<close>, and no record was appended to the
  details file and no \<open>loss_train\<close> entry written during the call.
\<close>

theorem dds_step_off_period_is_unbound_local:
  assumes run: "run_train_step_dds c p s = Some (res, s')"
    and freq: "dds_update_freq p \<noteq> 0"
    and reached: "global_steps (train_state s') = global_steps (train_state s) + 1"
    and off: "global_steps (train_state s') mod dds_update_freq p \<noteq> 0"
  shows "res = Inl (UnboundLocalError ''rewards'') \<and>
         (\<exists>evs. trace s' = trace s @ evs \<and> (\<forall>e \<in> set evs. \<not> is_log e))"
proof -
  from run_train_step_dds_Some[OF run] obtain t tsk n where
    rest: "dds_after_sampling c p t tsk
       (s\<lparr>task_sampler := shift (Suc n) (task_sampler s),
          trace := trace s @ ModelTrain # map SamplerPop (replicate n (dds_target_task p) @ [t])\<rparr>)
       = (res, s')" by blast
  let ?s0 = "s\<lparr>task_sampler := shift (Suc n) (task_sampler s),
          trace := trace s @ ModelTrain # map SamplerPop (replicate n (dds_target_task p) @ [t])\<rparr>"
  have "global_steps (train_state s') = global_steps (train_state ?s0) + 1"
    using reached by simp
  from dds_after_sampling_off_period[OF rest freq this off] obtain evs where
    r: "res = Inl (UnboundLocalError ''rewards'')" and
    e: "trace s' = trace ?s0 @ evs" "\<forall>e \<in> set evs. \<not> is_log e" by blast
  let ?pre = "ModelTrain # map SamplerPop (replicate n (dds_target_task p) @ [t])"
  have "trace s' = trace s @ (?pre @ evs)" using e(1) by simp
  moreover have "\<forall>e \<in> set (?pre @ evs). \<not> is_log e"
    using e(2) by (auto simp: is_log_def)
  ultimately show ?thesis using r by blast
qed

lemma dds_main_step_succeeds:
  assumes cfg: "task_specific_configs c t = Some cfg"
    and gas: "gradient_accumulation_steps cfg = 1"
    and dl: "train_dataloader_dict s t = Some st"
    and shape: "loss_shape (model_outputs s 0) = [batch_len (fst (st 0))]"
    and ids: "length (example_id (snd (st 0))) = batch_len (fst (st 0))"
    and k: "task_steps (train_state s) t = Some k"
  shows "\<exists>r s1. dds_main_step c p t tsk s = (Inr r, s1) \<and>
           global_steps (train_state s1) = global_steps (train_state s) + 1"
proof -
  obtain b m where st0: "st 0 = (b, m)" by (cases "st 0")
  with shape ids have "loss_shape (model_outputs s 0) = [batch_len b]"
    "length (example_id m) = batch_len b" by simp_all
  with cfg gas dl k st0 show ?thesis
  by (simp add: dds_main_step_def run_one_batch_def run_one_batch_body_def and_then_def
      lookup_def succeed_def emit_def dataloader_pop_def wrap_jiant_forward_def
      dds_weights_forward_def complex_backpropagate_def optimizer_step_def zero_grad_def
      train_state_step_def step_def Let_def)
qed

lemma example_dds_first_step:
  "\<exists>res s'. run_train_step_dds example_container example_dds_params example_dds_state =
       Some (res, s') \<and>
     global_steps (train_state example_dds_state) = 0 \<and>
     global_steps (train_state s') = 1"
proof -
  have tg: "dds_target_task example_dds_params = ''rte''" by (simp add: example_dds_params_def)
  have "fst (task_sampler example_dds_state 1) \<noteq> dds_target_task example_dds_params"
    by (simp add: example_dds_state_def tg)
  from run_train_step_dds_returns[OF this, of example_container] obtain res s' where
    run: "run_train_step_dds example_container example_dds_params example_dds_state =
            Some (res, s')" by auto
  from run_train_step_dds_Some[OF run] obtain t tsk n where
    a: "t \<noteq> ''rte''" "\<forall>i<n. fst (task_sampler example_dds_state i) = ''rte''"
       "task_sampler example_dds_state n = (t, tsk)" and
    b: "dds_after_sampling example_container example_dds_params t tsk
          (example_dds_state\<lparr>task_sampler := shift (Suc n) (task_sampler example_dds_state),
             trace := trace example_dds_state @
               ModelTrain # map SamplerPop (replicate n ''rte'' @ [t])\<rparr>) = (res, s')"
    unfolding tg by blast
  from example_dds_drawn[OF a] have n: "n = 1" "t = ''mnli''" "tsk = Task ''mnli''" by simp_all
  let ?s0 = "example_dds_state\<lparr>task_sampler := shift (Suc 1) (task_sampler example_dds_state),
             trace := trace example_dds_state @
               ModelTrain # map SamplerPop (replicate 1 ''rte'' @ [''mnli''])\<rparr>"
  have "\<exists>r s1. dds_main_step example_container example_dds_params ''mnli'' (Task ''mnli'') ?s0 =
            (Inr r, s1) \<and>
          global_steps (train_state s1) = global_steps (train_state ?s0) + 1"
    by (rule dds_main_step_succeeds[where st=example_stream and k=0
          and cfg="\<lparr>gradient_accumulation_steps = 1, train_batch_size = 2\<rparr>"])
       (simp_all add: example_container_def example_dds_state_def example_state_def
          example_stream_def from_task_name_list_def shift_def)
  then obtain r s1 where
    m: "dds_main_step example_container example_dds_params ''mnli'' (Task ''mnli'') ?s0 =
          (Inr r, s1)" and
    g: "global_steps (train_state s1) = global_steps (train_state ?s0) + 1" by blast
  from dds_after_sampling_train_state[OF m b[unfolded n]] have "train_state s' = train_state s1"
    by simp
  moreover have z: "global_steps (train_state example_dds_state) = 0"
    by (simp add: example_dds_state_def example_state_def from_task_name_list_def)
  ultimately have "global_steps (train_state s') = 1" using g by simp
  with run z show ?thesis by blast
qed

theorem dds_step_off_period_is_unbound_local_witness:
  "\<exists>s'. run_train_step_dds example_container example_dds_params example_dds_state =
       Some (Inl (UnboundLocalError ''rewards''), s') \<and>
     dds_update_freq example_dds_params \<noteq> 0 \<and>
     global_steps (train_state s') = global_steps (train_state example_dds_state) + 1 \<and>
     global_steps (train_state s') mod dds_update_freq example_dds_params \<noteq> 0"
proof -
  from example_dds_first_step obtain res s' where
    run: "run_train_step_dds example_container example_dds_params example_dds_state =
            Some (res, s')" and
    z: "global_steps (train_state example_dds_state) = 0" and
    g: "global_steps (train_state s') = 1" by blast
  have freq: "dds_update_freq example_dds_params \<noteq> 0" by (simp add: example_dds_params_def)
  have reached: "global_steps (train_state s') =
      global_steps (train_state example_dds_state) + 1" using z g by simp
  have off: "global_steps (train_state s') mod dds_update_freq example_dds_params \<noteq> 0"
    using g by (simp add: example_dds_params_def)
  from dds_step_off_period_is_unbound_local[OF run freq reached off]
  have "res = Inl (UnboundLocalError ''rewards'')" by simp
  with run freq reached off show ?thesis by blast
qed

lemma run_one_batch_single:
  assumes cfg: "task_specific_configs c t = Some cfg"
    and eff: "(if tg then 1 else gradient_accumulation_steps cfg) = 1"
    and dl: "train_dataloader_dict s t = Some st"
    and st0: "st 0 = (b, m)"
    and shape: "loss_shape (model_outputs s 0) = [batch_len b]"
  shows "\<exists>ws l s1. run_one_batch c p t tsk tg s = (Inr (b, example_id m, ws, l), s1) \<and>
     train_state s1 = train_state s \<and>
     (\<forall>t'. t' \<noteq> t \<longrightarrow> train_dataloader_dict s1 t' = train_dataloader_dict s t') \<and>
     model_outputs s1 = shift 1 (model_outputs s)"
proof -
  show ?thesis
  proof (cases tg)
    case True
    with cfg dl st0 shape show ?thesis
      by (simp add: run_one_batch_def run_one_batch_body_def and_then_def lookup_def
          succeed_def emit_def dataloader_pop_def wrap_jiant_forward_def
          complex_backpropagate_def Let_def)
  next
    case False
    with eff have "gradient_accumulation_steps cfg = 1" by simp
    with False cfg dl st0 shape show ?thesis
      by (simp add: run_one_batch_def run_one_batch_body_def and_then_def lookup_def
          succeed_def emit_def dataloader_pop_def wrap_jiant_forward_def
          dds_weights_forward_def complex_backpropagate_def Let_def)
  qed
qed

lemma dds_main_step_single:
  assumes cfg: "task_specific_configs c t = Some cfg"
    and gas: "gradient_accumulation_steps cfg = 1"
    and dl: "train_dataloader_dict s t = Some st"
    and st0: "st 0 = (b, m)"
    and shape: "loss_shape (model_outputs s 0) = [batch_len b]"
    and ids: "length (example_id m) = batch_len b"
    and k: "task_steps (train_state s) t = Some k"
  shows "\<exists>ws l s1. dds_main_step c p t tsk s = (Inr (cfg, b, example_id m, ws, l), s1) \<and>
     step (train_state s) t = Inr (train_state s1) \<and>
     (\<forall>t'. t' \<noteq> t \<longrightarrow> train_dataloader_dict s1 t' = train_dataloader_dict s t') \<and>
     model_outputs s1 = shift 1 (model_outputs s)"
proof -
  have "(if False then 1 else gradient_accumulation_steps cfg) = 1" using gas by simp
  from run_one_batch_single[OF cfg this dl st0 shape, of p tsk] obtain ws l s1 where
    "run_one_batch c p t tsk False s = (Inr (b, example_id m, ws, l), s1)"
    "train_state s1 = train_state s"
    "\<forall>t'. t' \<noteq> t \<longrightarrow> train_dataloader_dict s1 t' = train_dataloader_dict s t'"
    "model_outputs s1 = shift 1 (model_outputs s)" by blast
  with cfg ids k show ?thesis
    by (simp add: dds_main_step_def and_then_def lookup_def succeed_def emit_def
        optimizer_step_def zero_grad_def train_state_step_def step_def)
qed

lemma dds_update_round_single:
  assumes tg: "map_of (sampler_task_dict c) (dds_target_task p) = Some target"
    and cfg: "task_specific_configs c (dds_target_task p) = Some cfg"
    and dl: "train_dataloader_dict s (dds_target_task p) = Some st"
    and st0: "st 0 = (b', m')"
    and shape: "loss_shape (model_outputs s 0) = [batch_len b']"
  shows "\<exists>rl s2. dds_update_round c p b bound s = (Inr (Some (label_id b, rl)), s2) \<and>
     train_state s2 = train_state s"
proof -
  have "(if True then 1 else gradient_accumulation_steps cfg) = 1" by simp
  from run_one_batch_single[OF cfg this dl st0 shape, of p target] obtain ws l s1 where
    "run_one_batch c p (dds_target_task p) target True s = (Inr (b', example_id m', ws, l), s1)"
    "train_state s1 = train_state s" by blast
  with tg show ?thesis
    by (simp add: dds_update_round_def and_then_def lookup_def succeed_def emit_def
        zero_grad_def dds_optimizer_step_def)
qed

lemma emits_dds_update_round:
  "emits_only (\<lambda>e. \<not> is_log e) (dds_update_round c p b bound)"
  unfolding dds_update_round_def
  by (intro emits_intros) (simp_all add: is_log_def)

lemma dds_after_sampling_on_period:
  assumes main: "dds_main_step c p t tsk s0 = (Inr (cfg, b, ids, ws, lv), s1)"
    and freq: "dds_update_freq p \<noteq> 0"
    and on: "global_steps (train_state s1) mod dds_update_freq p = 0"
    and one: "dds_update_steps p = 1"
    and round: "dds_update_round c p b None s1 = (Inr (Some (rw, rl)), s2)"
    and k: "task_steps (train_state s2) t = Some k"
    and gas: "gradient_accumulation_steps cfg \<noteq> 0"
  shows "\<exists>d r s' evs. dds_after_sampling c p t tsk s0 = (Inr (), s') \<and>
     trace s' = trace s0 @ evs \<and>
     filter is_log evs = [LogDDSDetails d, WriteEntry ''loss_train'' r]"
proof -
  from emits_dds_main_step[of c p t tsk] main obtain evs1 where
    e1: "trace s1 = trace s0 @ evs1" "\<forall>e \<in> set evs1. \<not> is_log e"
    unfolding emits_only_def by blast
  from emits_dds_update_round[of c p b None] round obtain evs2 where
    e2: "trace s2 = trace s1 @ evs2" "\<forall>e \<in> set evs2. \<not> is_log e"
    unfolding emits_only_def by blast
  have per: "dds_periodic_update c p b s1 = (Inr (Some (rw, rl)), s2)"
    using freq on one round by (simp add: dds_periodic_update_def)
  let ?d = "\<lparr>dd_task_name = t, dd_global_steps = global_steps (train_state s2),
      dd_example_ids = ids, dd_rewards = rw, dd_dds_weights = ws, dd_rl_loss = rl\<rparr>"
  let ?r = "\<lparr>log_task = t, log_task_step = k,
      log_global_step = global_steps (train_state s2),
      log_loss_val = lv / real_of_int (gradient_accumulation_steps cfg),
      log_rl_loss = Some rl\<rparr>"
  let ?s' = "s2\<lparr>trace := trace s2 @ [LogDDSDetails ?d, WriteEntry ''loss_train'' ?r]\<rparr>"
  have run: "dds_after_sampling c p t tsk s0 = (Inr (), ?s')"
    using main per k gas
    by (simp add: dds_after_sampling_def and_then_def dds_log_step_def log_dds_details_def
        emit_def lookup_def succeed_def py_div_def)
  let ?evs = "evs1 @ evs2 @ [LogDDSDetails ?d, WriteEntry ''loss_train'' ?r]"
  have tr: "trace ?s' = trace s0 @ ?evs" using e1 e2 by simp
  have fl: "filter is_log ?evs = [LogDDSDetails ?d, WriteEntry ''loss_train'' ?r]"
    using e1 e2 by (simp add: is_log_def filter_empty_conv)
  from run tr fl show ?thesis by blast
qed

lemma example_dds_update_step:
  "\<exists>s' d r. run_train_step_dds example_container example_dds_every_step example_dds_state =
       Some (Inr (), s') \<and>
     filter is_log (trace s') = [LogDDSDetails d, WriteEntry ''loss_train'' r]"
proof -
  let ?p = example_dds_every_step
  let ?c = example_container
  have tg: "dds_target_task ?p = ''rte''"
    by (simp add: example_dds_every_step_def example_dds_params_def)
  have "fst (task_sampler example_dds_state 1) \<noteq> dds_target_task ?p"
    by (simp add: example_dds_state_def tg)
  from run_train_step_dds_returns[OF this, of ?c] obtain res s' where
    run: "run_train_step_dds ?c ?p example_dds_state = Some (res, s')" by auto
  from run_train_step_dds_Some[OF run] obtain t tsk n where
    a: "t \<noteq> ''rte''" "\<forall>i<n. fst (task_sampler example_dds_state i) = ''rte''"
       "task_sampler example_dds_state n = (t, tsk)" and
    b: "dds_after_sampling ?c ?p t tsk
          (example_dds_state\<lparr>task_sampler := shift (Suc n) (task_sampler example_dds_state),
             trace := trace example_dds_state @
               ModelTrain # map SamplerPop (replicate n ''rte'' @ [t])\<rparr>) = (res, s')"
    unfolding tg by blast
  from example_dds_drawn[OF a] have n: "n = 1" "t = ''mnli''" "tsk = Task ''mnli''" by simp_all
  let ?s0 = "example_dds_state\<lparr>task_sampler := shift (Suc 1) (task_sampler example_dds_state),
             trace := trace example_dds_state @
               ModelTrain # map SamplerPop (replicate 1 ''rte'' @ [''mnli''])\<rparr>"
  let ?b = "\<lparr>batch_len = 2, label_id = [0, 1]\<rparr>"
  have cfg: "task_specific_configs ?c ''mnli'' =
      Some \<lparr>gradient_accumulation_steps = 1, train_batch_size = 2\<rparr>"
    by (simp add: example_container_def)
  have gas: "gradient_accumulation_steps
      \<lparr>gradient_accumulation_steps = 1, train_batch_size = 2\<rparr> = 1" by simp
  have dl: "train_dataloader_dict ?s0 ''mnli'' = Some example_stream"
    by (simp add: example_dds_state_def example_state_def)
  have st0: "example_stream 0 = (?b, \<lparr>example_id = [0, 1]\<rparr>)"
    by (simp add: example_stream_def)
  have shape: "loss_shape (model_outputs ?s0 0) = [batch_len ?b]"
    by (simp add: example_dds_state_def example_state_def)
  have ids: "length (example_id \<lparr>example_id = [0, 1]\<rparr>) = batch_len ?b" by simp
  have k: "task_steps (train_state ?s0) ''mnli'' = Some 0"
    by (simp add: example_dds_state_def example_state_def from_task_name_list_def)
  from dds_main_step_single[OF cfg gas dl st0 shape ids k, of ?p "Task ''mnli''"]
  obtain ws l s1 where
    main: "dds_main_step ?c ?p ''mnli'' (Task ''mnli'') ?s0 =
        (Inr (\<lparr>gradient_accumulation_steps = 1, train_batch_size = 2\<rparr>, ?b,
              example_id \<lparr>example_id = [0, 1]\<rparr>, ws, l), s1)" and
    st: "step (train_state ?s0) ''mnli'' = Inr (train_state s1)" and
    others: "\<forall>t'. t' \<noteq> ''mnli'' \<longrightarrow> train_dataloader_dict s1 t' = train_dataloader_dict ?s0 t'"
    and mo: "model_outputs s1 = shift 1 (model_outputs ?s0)" by blast
  from st step_tracked[OF k] have "train_state s1 =
      \<lparr>global_steps = global_steps (train_state ?s0) + 1,
       task_steps = (task_steps (train_state ?s0))(''mnli'' \<mapsto> 0 + 1)\<rparr>" by simp
  then have ts1: "global_steps (train_state s1) = 1"
    "task_steps (train_state s1) ''mnli'' = Some 1"
    by (simp_all add: example_dds_state_def example_state_def from_task_name_list_def)
  have tgt: "map_of (sampler_task_dict ?c) (dds_target_task ?p) = Some (Task ''rte'')"
    by (simp add: tg example_container_def)
  have cfg2: "task_specific_configs ?c (dds_target_task ?p) =
      Some \<lparr>gradient_accumulation_steps = 2, train_batch_size = 2\<rparr>"
    by (simp add: tg example_container_def)
  have dl2: "train_dataloader_dict s1 (dds_target_task ?p) = Some example_stream"
    using others by (simp add: tg example_dds_state_def example_state_def)
  have shape2: "loss_shape (model_outputs s1 0) = [batch_len ?b]"
    by (simp add: mo shift_def example_dds_state_def example_state_def)
  from dds_update_round_single[OF tgt cfg2 dl2 st0 shape2, of ?b None] obtain rl s2 where
    round: "dds_update_round ?c ?p ?b None s1 = (Inr (Some (label_id ?b, rl)), s2)" and
    ts2: "train_state s2 = train_state s1" by blast
  have freq: "dds_update_freq ?p \<noteq> 0" by (simp add: example_dds_every_step_def)
  have on: "global_steps (train_state s1) mod dds_update_freq ?p = 0"
    by (simp add: example_dds_every_step_def)
  have one: "dds_update_steps ?p = 1"
    by (simp add: example_dds_every_step_def example_dds_params_def)
  have k2: "task_steps (train_state s2) ''mnli'' = Some 1" using ts2 ts1 by simp
  have gas2: "gradient_accumulation_steps
      \<lparr>gradient_accumulation_steps = 1, train_batch_size = 2\<rparr> \<noteq> 0" by simp
  from dds_after_sampling_on_period[OF main freq on one round k2 gas2] obtain d r sf evs where
    fin: "dds_after_sampling ?c ?p ''mnli'' (Task ''mnli'') ?s0 = (Inr (), sf)" and
    evs: "trace sf = trace ?s0 @ evs" and
    logs: "filter is_log evs = [LogDDSDetails d, WriteEntry ''loss_train'' r]" by blast
  from b[unfolded n] fin have rs: "res = Inr ()" "s' = sf" by simp_all
  have "filter is_log (trace sf) = [LogDDSDetails d, WriteEntry ''loss_train'' r]"
    using logs unfolding evs
    by (simp add: example_dds_state_def example_state_def is_log_def)
  with run rs show ?thesis by blast
qed

text \<open>
  C6, at the first step of the example run (\<open>global_steps\<close> from 0 to 1). With
  \<open>dds_update_freq = 2\<close> the step is not a periodic-update step: \<open>log_dds_details\<close> is never
  reached, the call raises the unbound-local error and the trace holds no log record.
  With \<open>dds_update_freq = 1\<close> the same call is a periodic-update step and appends exactly
  one record to the details file, followed by the \<open>loss_train\<close> entry.
\<close>

theorem dds_first_step_appends_no_record:
  "(\<exists>s'. run_train_step_dds example_container example_dds_params example_dds_state =
       Some (Inl (UnboundLocalError ''rewards''), s') \<and>
     global_steps (train_state s') = 1 \<and>
     trace example_dds_state = [] \<and>
     filter is_log (trace s') = []) \<and>
   (\<exists>s' d r. run_train_step_dds example_container example_dds_every_step example_dds_state =
       Some (Inr (), s') \<and>
     filter is_log (trace s') = [LogDDSDetails d, WriteEntry ''loss_train'' r])"
proof -
  from example_dds_first_step obtain res s' where
    run: "run_train_step_dds example_container example_dds_params example_dds_state =
            Some (res, s')" and
    z: "global_steps (train_state example_dds_state) = 0" and
    g: "global_steps (train_state s') = 1" by blast
  let ?s = example_dds_state
  have tr: "trace ?s = []" by (simp add: example_dds_state_def example_state_def)
  from run_train_step_dds_Some[OF run] obtain t tsk n where
    rest: "dds_after_sampling example_container example_dds_params t tsk
       (?s\<lparr>task_sampler := shift (Suc n) (task_sampler ?s),
          trace := trace ?s @ ModelTrain #
            map SamplerPop (replicate n (dds_target_task example_dds_params) @ [t])\<rparr>)
       = (res, s')" by blast
  let ?s0 = "?s\<lparr>task_sampler := shift (Suc n) (task_sampler ?s),
          trace := trace ?s @ ModelTrain #
            map SamplerPop (replicate n (dds_target_task example_dds_params) @ [t])\<rparr>"
  have freq: "dds_update_freq example_dds_params \<noteq> 0" by (simp add: example_dds_params_def)
  have reached: "global_steps (train_state s') = global_steps (train_state ?s0) + 1"
    using z g by simp
  have off: "global_steps (train_state s') mod dds_update_freq example_dds_params \<noteq> 0"
    using g by (simp add: example_dds_params_def)
  from dds_after_sampling_off_period[OF rest freq reached off] obtain evs where
    r: "res = Inl (UnboundLocalError ''rewards'')" and
    e: "trace s' = trace ?s0 @ evs" "\<forall>e \<in> set evs. \<not> is_log e" by blast
  have "filter is_log (trace s') = []"
    using e tr by (auto simp: is_log_def filter_empty_conv)
  with run r g tr have first: "\<exists>s'. run_train_step_dds example_container example_dds_params
       example_dds_state = Some (Inl (UnboundLocalError ''rewards''), s') \<and>
     global_steps (train_state s') = 1 \<and>
     trace example_dds_state = [] \<and>
     filter is_log (trace s') = []" by blast
  show ?thesis by (rule conjI[OF first example_dds_update_step])
qed

lemma run_one_batch_body_mismatch:
  assumes dl: "train_dataloader_dict s t = Some st"
    and bad: "loss_shape (model_outputs s 0) \<noteq> [batch_len (fst (st 0))]"
  shows "run_one_batch_body c p t tsk is_target gas acc s =
     (Inl AssertionError,
      s\<lparr>train_dataloader_dict := (train_dataloader_dict s)(t \<mapsto> shift 1 st),
        model_outputs := shift 1 (model_outputs s),
        trace := trace s @ [StreamPop t, Forward tsk True]\<rparr>)"
proof -
  obtain b m where st0: "st 0 = (b, m)" by (cases "st 0")
  obtain a1 a2 a3 a4 where acc: "acc = (a1, a2, a3, a4)" by (cases acc) auto
  from bad st0 have "loss_shape (model_outputs s 0) \<noteq> [batch_len b]" by simp
  with dl st0 show ?thesis
    by (simp add: run_one_batch_body_def acc and_then_def dataloader_pop_def
        wrap_jiant_forward_def raise_def)
qed

lemma run_one_batch_body_match:
  assumes dl: "train_dataloader_dict s t = Some st"
    and good: "loss_shape (model_outputs s 0) = [batch_len (fst (st 0))]"
  shows "\<exists>acc' s1 evs.
     run_one_batch_body c p t tsk is_target gas acc s = (Inr acc', s1) \<and>
     train_dataloader_dict s1 t = Some (shift 1 st) \<and>
     model_outputs s1 = shift 1 (model_outputs s) \<and>
     length (grads s1) = Suc (length (grads s)) \<and> weights s1 = weights s \<and>
     trace s1 = trace s @ evs \<and> length (filter is_backprop evs) = 1"
proof -
  obtain b m where st0: "st 0 = (b, m)" by (cases "st 0")
  obtain a1 a2 a3 a4 where acc: "acc = (a1, a2, a3, a4)" by (cases acc) auto
  from good st0 have g: "loss_shape (model_outputs s 0) = [batch_len b]" by simp
  show ?thesis
  proof (cases is_target)
    case True
    with dl st0 g show ?thesis
      by (simp add: run_one_batch_body_def acc and_then_def dataloader_pop_def
          wrap_jiant_forward_def succeed_def complex_backpropagate_def is_backprop_def)
  next
    case False
    with dl st0 g show ?thesis
      by (simp add: run_one_batch_body_def acc and_then_def dataloader_pop_def
          wrap_jiant_forward_def succeed_def complex_backpropagate_def dds_weights_forward_def
          is_backprop_def)
  qed
qed

lemma for_range_run_one_batch_body_mismatch:
  assumes "train_dataloader_dict s t = Some st" "j < n"
    and "\<forall>i<j. loss_shape (model_outputs s i) = [batch_len (fst (st i))]"
    and "loss_shape (model_outputs s j) \<noteq> [batch_len (fst (st j))]"
  shows "\<exists>s' evs.
     for_range n (run_one_batch_body c p t tsk is_target gas) acc s = (Inl AssertionError, s') \<and>
     train_dataloader_dict s' t = Some (shift (Suc j) st) \<and>
     model_outputs s' = shift (Suc j) (model_outputs s) \<and>
     length (grads s') = length (grads s) + j \<and> weights s' = weights s \<and>
     trace s' = trace s @ evs @ [StreamPop t, Forward tsk True] \<and>
     length (filter is_backprop evs) = j"
  using assms
proof (induction j arbitrary: n acc s st)
  case 0
  from 0(2) obtain n' where n: "n = Suc n'" by (cases n) auto
  from 0(4) have bad: "loss_shape (model_outputs s 0) \<noteq> [batch_len (fst (st 0))]" by simp
  let ?s' = "s\<lparr>train_dataloader_dict := (train_dataloader_dict s)(t \<mapsto> shift 1 st),
        model_outputs := shift 1 (model_outputs s),
        trace := trace s @ [StreamPop t, Forward tsk True]\<rparr>"
  show ?case
    unfolding n
    by (rule exI[of _ ?s'], rule exI[of _ "[]"])
       (simp add: run_one_batch_body_mismatch[OF 0(1) bad])
next
  case (Suc j)
  from Suc.prems(2) obtain n' where n: "n = Suc n'" and j: "j < n'" by (cases n) auto
  from Suc.prems(3) have good: "loss_shape (model_outputs s 0) = [batch_len (fst (st 0))]"
    by simp
  from run_one_batch_body_match[OF Suc.prems(1) good, of c p tsk is_target gas acc]
  obtain acc' s1 evs1 where
    one: "run_one_batch_body c p t tsk is_target gas acc s = (Inr acc', s1)" and
    dl1: "train_dataloader_dict s1 t = Some (shift 1 st)" and
    mo1: "model_outputs s1 = shift 1 (model_outputs s)" and
    g1: "length (grads s1) = Suc (length (grads s))" and w1: "weights s1 = weights s" and
    t1: "trace s1 = trace s @ evs1" and b1: "length (filter is_backprop evs1) = 1"
    by blast
  have good1: "\<forall>i<j. loss_shape (model_outputs s1 i) = [batch_len (fst (shift 1 st i))]"
    using Suc.prems(3) by (simp add: mo1 shift_def)
  have bad1: "loss_shape (model_outputs s1 j) \<noteq> [batch_len (fst (shift 1 st j))]"
    using Suc.prems(4) by (simp add: mo1 shift_def)
  from Suc.IH[OF dl1 j good1 bad1, of acc'] obtain s' evs where
    r: "for_range n' (run_one_batch_body c p t tsk is_target gas) acc' s1 =
          (Inl AssertionError, s')" and
    dl': "train_dataloader_dict s' t = Some (shift (Suc j) (shift 1 st))" and
    mo': "model_outputs s' = shift (Suc j) (model_outputs s1)" and
    g': "length (grads s') = length (grads s1) + j" and w': "weights s' = weights s1" and
    t': "trace s' = trace s1 @ evs @ [StreamPop t, Forward tsk True]" and
    b': "length (filter is_backprop evs) = j"
    by blast
  have "for_range n (run_one_batch_body c p t tsk is_target gas) acc s =
      (Inl AssertionError, s')"
    by (simp add: n one r)
  moreover have "train_dataloader_dict s' t = Some (shift (Suc (Suc j)) st)"
    using dl' by (simp add: shift_shift)
  moreover have "model_outputs s' = shift (Suc (Suc j)) (model_outputs s)"
    using mo' mo1 by (simp add: shift_shift)
  moreover have "length (grads s') = length (grads s) + Suc j" using g' g1 by simp
  moreover have "weights s' = weights s" using w' w1 by simp
  moreover have "trace s' = trace s @ (evs1 @ evs) @ [StreamPop t, Forward tsk True]"
    using t' t1 by simp
  moreover have "length (filter is_backprop (evs1 @ evs)) = Suc j" using b1 b' by simp
  ultimately show ?case by blast
qed

lemma example_late_mismatch_batch:
  "\<exists>s'. run_one_batch example_container example_mnli_target_params ''rte'' (Task ''rte'') False
       (example_late_mismatch_state\<lparr>trace := evs0\<rparr>) = (Inl AssertionError, s') \<and>
     trace s' = evs0 @ [WeightingEval, StreamPop ''rte'', Forward (Task ''rte'') True, WeightsForward,
        Backprop 4 2, StreamPop ''rte'', Forward (Task ''rte'') True] \<and>
     grads s' = [LossGrad 4 2] \<and> weights s' = [] \<and>
     train_state s' = train_state example_late_mismatch_state"
  by (simp add: run_one_batch_def run_one_batch_body_def and_then_def lookup_def succeed_def
      raise_def emit_def dataloader_pop_def wrap_jiant_forward_def dds_weights_forward_def
      complex_backpropagate_def example_container_def example_mnli_target_params_def
      example_dds_params_def example_late_mismatch_state_def example_state_def
      example_stream_def shift_def eval_nat_numeral)

lemma example_late_mismatch_drawn:
  "sample_non_target ''mnli'' (example_late_mismatch_state\<lparr>trace := [ModelTrain]\<rparr>) =
     Some ((''rte'', Task ''rte''),
       example_late_mismatch_state\<lparr>task_sampler := shift 1 (task_sampler example_late_mismatch_state),
         trace := [ModelTrain, SamplerPop ''rte'']\<rparr>)"
  by (subst sample_non_target.simps)
     (simp add: sampler_pop_def Let_def example_late_mismatch_state_def example_state_def)

text \<open>
  C9: in \<open>run_one_batch\<close>, let micro-batch \<open>j\<close> be the first whose unreduced loss does not
  have the shape \<open>(len(batch),)\<close>. Then the call raises \<open>AssertionError\<close> right after that
  batch's forward pass and before its backward pass: the failing batch is popped and
  forwarded once and never backpropagated, nothing is popped or forwarded after it, no
  optimizer step is taken, and the main step of \<open>run_train_step\<close> passes the error on.
  The \<open>j\<close> well-shaped micro-batches before it have each been backpropagated into the
  gradient buffers: the failure precedes every backward pass of the call only for \<open>j = 0\<close>.
\<close>

theorem dds_loss_shape_assertion:
  assumes cfg: "task_specific_configs c t = Some cfg"
    and dl: "train_dataloader_dict s t = Some st"
    and j: "j < nat (if is_target then 1 else gradient_accumulation_steps cfg)"
    and good: "\<forall>i<j. loss_shape (model_outputs s i) = [batch_len (fst (st i))]"
    and bad: "loss_shape (model_outputs s j) \<noteq> [batch_len (fst (st j))]"
  shows "\<exists>s' evs.
     run_one_batch c p t tsk is_target s = (Inl AssertionError, s') \<and>
     train_dataloader_dict s' t = Some (shift (Suc j) st) \<and>
     model_outputs s' = shift (Suc j) (model_outputs s) \<and>
     length (grads s') = length (grads s) + j \<and> weights s' = weights s \<and>
     trace s' = trace s @ WeightingEval # evs @ [StreamPop t, Forward tsk True] \<and>
     length (filter is_backprop evs) = j \<and>
     (\<not> is_target \<longrightarrow> dds_main_step c p t tsk s = (Inl AssertionError, s'))"
proof -
  let ?gas = "if is_target then 1 else gradient_accumulation_steps cfg"
  let ?s0 = "s\<lparr>trace := trace s @ [WeightingEval]\<rparr>"
  have dl0: "train_dataloader_dict ?s0 t = Some st" using dl by simp
  have good0: "\<forall>i<j. loss_shape (model_outputs ?s0 i) = [batch_len (fst (st i))]"
    using good by simp
  have bad0: "loss_shape (model_outputs ?s0 j) \<noteq> [batch_len (fst (st j))]" using bad by simp
  from for_range_run_one_batch_body_mismatch[OF dl0 j good0 bad0,
      of c p tsk is_target ?gas "(None, [], [], 0)"]
  obtain s' evs where
    r: "for_range (nat ?gas) (run_one_batch_body c p t tsk is_target ?gas) (None, [], [], 0) ?s0
          = (Inl AssertionError, s')" and
    rest: "train_dataloader_dict s' t = Some (shift (Suc j) st)"
      "model_outputs s' = shift (Suc j) (model_outputs ?s0)"
      "length (grads s') = length (grads ?s0) + j" "weights s' = weights ?s0"
      "trace s' = trace ?s0 @ evs @ [StreamPop t, Forward tsk True]"
      "length (filter is_backprop evs) = j"
    by blast
  have one: "run_one_batch c p t tsk is_target s = (Inl AssertionError, s')"
    using cfg r by (simp add: run_one_batch_def and_then_def lookup_def succeed_def emit_def Let_def)
  have "dds_main_step c p t tsk s = (Inl AssertionError, s')" if "\<not> is_target"
    using that cfg one by (simp add: dds_main_step_def and_then_def lookup_def succeed_def)
  with one rest show ?thesis by simp
qed

theorem dds_loss_shape_assertion_witness:
  "(\<exists>s' evs.
     run_one_batch example_container example_dds_params ''mnli'' (Task ''mnli'') False
       example_mismatch_state = (Inl AssertionError, s') \<and>
     dds_main_step example_container example_dds_params ''mnli'' (Task ''mnli'')
       example_mismatch_state = (Inl AssertionError, s') \<and>
     grads s' = [] \<and> weights s' = [] \<and>
     trace s' = WeightingEval # evs @ [StreamPop ''mnli'', Forward (Task ''mnli'') True] \<and>
     filter is_backprop evs = []) \<and>
   (\<exists>s' evs.
     run_one_batch example_container example_mnli_target_params ''rte'' (Task ''rte'') False
       example_late_mismatch_state = (Inl AssertionError, s') \<and>
     length (grads s') = 1 \<and> weights s' = [] \<and>
     trace s' = WeightingEval # evs @ [StreamPop ''rte'', Forward (Task ''rte'') True] \<and>
     length (filter is_backprop evs) = 1)"
proof -
  have cfg: "task_specific_configs example_container ''mnli'' =
      Some \<lparr>gradient_accumulation_steps = 1, train_batch_size = 2\<rparr>"
    by (simp add: example_container_def)
  have dl: "train_dataloader_dict example_mismatch_state ''mnli'' = Some example_stream"
    by (simp add: example_mismatch_state_def example_state_def)
  have j: "0 < nat (if False then 1
      else gradient_accumulation_steps \<lparr>gradient_accumulation_steps = 1, train_batch_size = 2\<rparr>)"
    by simp
  have good: "\<forall>i<0::nat. loss_shape (model_outputs example_mismatch_state i) =
      [batch_len (fst (example_stream i))]" by simp
  have bad: "loss_shape (model_outputs example_mismatch_state 0) \<noteq>
      [batch_len (fst (example_stream 0))]"
    by (simp add: example_mismatch_state_def example_stream_def)
  from dds_loss_shape_assertion[OF cfg dl j good bad, of example_dds_params "Task ''mnli''"]
  have first: "\<exists>s' evs.
     run_one_batch example_container example_dds_params ''mnli'' (Task ''mnli'') False
       example_mismatch_state = (Inl AssertionError, s') \<and>
     dds_main_step example_container example_dds_params ''mnli'' (Task ''mnli'')
       example_mismatch_state = (Inl AssertionError, s') \<and>
     grads s' = [] \<and> weights s' = [] \<and>
     trace s' = WeightingEval # evs @ [StreamPop ''mnli'', Forward (Task ''mnli'') True] \<and>
     filter is_backprop evs = []"
    by (auto simp: example_mismatch_state_def example_state_def)
  have cfg2: "task_specific_configs example_container ''rte'' =
      Some \<lparr>gradient_accumulation_steps = 2, train_batch_size = 2\<rparr>"
    by (simp add: example_container_def)
  have dl2: "train_dataloader_dict example_late_mismatch_state ''rte'' = Some example_stream"
    by (simp add: example_late_mismatch_state_def example_state_def)
  have j2: "1 < nat (if False then 1
      else gradient_accumulation_steps \<lparr>gradient_accumulation_steps = 2, train_batch_size = 2\<rparr>)"
    by simp
  have good2: "\<forall>i<1::nat. loss_shape (model_outputs example_late_mismatch_state i) =
      [batch_len (fst (example_stream i))]"
    by (simp add: example_late_mismatch_state_def example_stream_def)
  have bad2: "loss_shape (model_outputs example_late_mismatch_state 1) \<noteq>
      [batch_len (fst (example_stream 1))]"
    by (simp add: example_late_mismatch_state_def example_stream_def)
  from dds_loss_shape_assertion[OF cfg2 dl2 j2 good2 bad2, of example_mnli_target_params "Task ''rte''"]
  have second: "\<exists>s' evs.
     run_one_batch example_container example_mnli_target_params ''rte'' (Task ''rte'') False
       example_late_mismatch_state = (Inl AssertionError, s') \<and>
     length (grads s') = 1 \<and> weights s' = [] \<and>
     trace s' = WeightingEval # evs @ [StreamPop ''rte'', Forward (Task ''rte'') True] \<and>
     length (filter is_backprop evs) = 1"
    by (auto simp: example_late_mismatch_state_def example_state_def)
  from first second show ?thesis by (rule conjI)
qed

text \<open>
  C9 with the failure placed before any backward pass does not hold once a task
  accumulates gradients over more than one micro-batch. With target \<open>mnli\<close> the step draws
  \<open>rte\<close>, whose \<open>gradient_accumulation_steps\<close> is 2; the first loss has the shape of its batch
  and is backpropagated, the second has three entries for a batch of two. The step ends in
  \<open>AssertionError\<close> with that one backward pass in the trace and its gradient in the
  buffers.
\<close>

theorem dds_late_mismatch_after_backward_pass:
  "map_option fst (run_train_step_dds example_container example_mnli_target_params
       example_late_mismatch_state) = Some (Inl AssertionError) \<and>
   map_option (trace \<circ> snd) (run_train_step_dds example_container example_mnli_target_params
       example_late_mismatch_state) =
     Some [ModelTrain, SamplerPop ''rte'', WeightingEval,
           StreamPop ''rte'', Forward (Task ''rte'') True, WeightsForward, Backprop 4 2,
           StreamPop ''rte'', Forward (Task ''rte'') True] \<and>
   map_option (grads \<circ> snd) (run_train_step_dds example_container example_mnli_target_params
       example_late_mismatch_state) = Some [LossGrad 4 2] \<and>
   fst (run_one_batch example_container example_mnli_target_params ''rte'' (Task ''rte'') False
       example_late_mismatch_state) = Inl AssertionError \<and>
   filter is_backprop (trace (snd (run_one_batch example_container example_mnli_target_params
       ''rte'' (Task ''rte'') False example_late_mismatch_state))) = [Backprop 4 2]"
proof -
  let ?c = example_container and ?p = example_mnli_target_params
  let ?s = example_late_mismatch_state
  have tr: "trace ?s = []" by (simp add: example_late_mismatch_state_def example_state_def)
  have tg: "dds_target_task ?p = ''mnli''"
    by (simp add: example_mnli_target_params_def)
  let ?s1 = "?s\<lparr>task_sampler := shift 1 (task_sampler ?s), trace := [ModelTrain, SamplerPop ''rte'']\<rparr>"
  have cfg: "task_specific_configs ?c ''rte'' =
      Some \<lparr>gradient_accumulation_steps = 2, train_batch_size = 2\<rparr>"
    by (simp add: example_container_def)
  have batch: "\<exists>s'. run_one_batch ?c ?p ''rte'' (Task ''rte'') False ?s1 = (Inl AssertionError, s') \<and>
     trace s' = [ModelTrain, SamplerPop ''rte'', WeightingEval, StreamPop ''rte'',
        Forward (Task ''rte'') True, WeightsForward,
        Backprop 4 2, StreamPop ''rte'', Forward (Task ''rte'') True] \<and>
     grads s' = [LossGrad 4 2]"
    by (simp add: run_one_batch_def run_one_batch_body_def and_then_def lookup_def succeed_def
      raise_def emit_def dataloader_pop_def wrap_jiant_forward_def dds_weights_forward_def
      complex_backpropagate_def example_container_def example_mnli_target_params_def
      example_dds_params_def example_late_mismatch_state_def example_state_def
      example_stream_def shift_def eval_nat_numeral)
  then obtain s' where
    one: "run_one_batch ?c ?p ''rte'' (Task ''rte'') False ?s1 = (Inl AssertionError, s')" and
    t': "trace s' = [ModelTrain, SamplerPop ''rte'', WeightingEval, StreamPop ''rte'',
        Forward (Task ''rte'') True, WeightsForward,
        Backprop 4 2, StreamPop ''rte'', Forward (Task ''rte'') True]" and
    g': "grads s' = [LossGrad 4 2]"
    by blast
  have main: "dds_after_sampling ?c ?p ''rte'' (Task ''rte'') ?s1 = (Inl AssertionError, s')"
    using cfg one
    by (simp add: dds_after_sampling_def dds_main_step_def and_then_def lookup_def succeed_def)
  have run: "run_train_step_dds ?c ?p ?s = Some (Inl AssertionError, s')"
    using main by (simp add: run_train_step_dds_def tg tr example_late_mismatch_drawn)
  from example_late_mismatch_batch[of "[]"] obtain s2 where
    two: "run_one_batch ?c ?p ''rte'' (Task ''rte'') False (?s\<lparr>trace := []\<rparr>) =
        (Inl AssertionError, s2)" and
    t2: "trace s2 = [WeightingEval, StreamPop ''rte'', Forward (Task ''rte'') True, WeightsForward,
        Backprop 4 2, StreamPop ''rte'', Forward (Task ''rte'') True]"
    by auto
  have "?s\<lparr>trace := []\<rparr> = ?s" using tr by simp
  with two have two': "run_one_batch ?c ?p ''rte'' (Task ''rte'') False ?s = (Inl AssertionError, s2)"
    by simp
  have p1: "map_option fst (run_train_step_dds ?c ?p ?s) = Some (Inl AssertionError)"
    by (simp add: run)
  have p2: "map_option (trace \<circ> snd) (run_train_step_dds ?c ?p ?s) =
     Some [ModelTrain, SamplerPop ''rte'', WeightingEval,
           StreamPop ''rte'', Forward (Task ''rte'') True, WeightsForward, Backprop 4 2,
           StreamPop ''rte'', Forward (Task ''rte'') True]"
    by (simp add: run t')
  have p3: "map_option (grads \<circ> snd) (run_train_step_dds ?c ?p ?s) = Some [LossGrad 4 2]"
    by (simp add: run g')
  have p4: "fst (run_one_batch ?c ?p ''rte'' (Task ''rte'') False ?s) = Inl AssertionError"
    by (simp add: two')
  have p5: "filter is_backprop (trace (snd (run_one_batch ?c ?p ''rte'' (Task ''rte'') False ?s))) =
      [Backprop 4 2]"
    by (simp add: two' t2 is_backprop_def)
  show ?thesis by (rule conjI[OF p1 conjI[OF p2 conjI[OF p3 conjI[OF p4 p5]]]])
qed

section \<open>The step of the MultiDDS runner\<close>

lemma grad_calls_append: "grad_calls (xs @ ys) = grad_calls xs @ grad_calls ys"
  by (simp add: grad_calls_def List.map_filter_def)

lemma grad_calls_Nil: "grad_calls [] = []"
  by (simp add: grad_calls_def List.map_filter_def)

lemma grad_calls_Cons:
  "grad_calls (e # evs) =
     (case grad_call_of e of None \<Rightarrow> grad_calls evs | Some k \<Rightarrow> k # grad_calls evs)"
  by (simp add: grad_calls_def List.map_filter_def split: option.splits)

lemma grad_calls_micro_batch_events:
  "grad_calls (micro_batch_events t tsk gas outs) = replicate (length outs) Backward"
  by (induction outs) (simp_all add: micro_batch_events_def grad_calls_Nil grad_calls_Cons)

lemma mdds_run_one_batch_Inr:
  assumes "mdds_run_one_batch c t tsk s = (Inr x, s1)"
  shows "weights s1 = weights s \<and> train_state s1 = train_state s \<and>
     (\<exists>evs. trace s1 = trace s @ evs \<and> grad_calls evs = replicate (accumulation c t) Backward)"
proof -
  from assms obtain cfg where cfg: "task_specific_configs c t = Some cfg"
    by (cases "task_specific_configs c t")
       (auto simp: mdds_run_one_batch_def and_then_def lookup_def raise_def)
  with assms have loop:
    "for_range (nat (gradient_accumulation_steps cfg))
       (micro_batch c t tsk (gradient_accumulation_steps cfg)) 0 s = (Inr x, s1)"
    by (simp add: mdds_run_one_batch_def and_then_def lookup_def succeed_def)
  from for_range_micro_batch_cases[OF loop] cfg show ?thesis
    by (auto simp: grad_calls_micro_batch_events length_stake accumulation_def)
qed

lemma probe_Inr:
  assumes "probe c (t, tsk) acc s = (Inr acc', s1)"
  shows "grads s1 = [] \<and> weights s1 = weights s \<and> train_state s1 = train_state s \<and>
     acc' = (t, Suc (snd acc)) \<and>
     (\<exists>evs. trace s1 = trace s @ evs \<and> grad_calls evs = probe_calls c t)"
proof -
  from assms obtain x s2 where
    one: "mdds_run_one_batch c t tsk s = (Inr x, s2)" and
    rest: "s1 = s2\<lparr>grads := [], trace := trace s2 @ [GetSharedGrad False, GradSim, ZeroGrad]\<rparr>"
      "acc' = (t, Suc (snd acc))"
    by (auto simp: probe_def and_then_def emit_def zero_grad_def succeed_def
        split: prod.splits sum.splits)
  from mdds_run_one_batch_Inr[OF one] obtain evs where
    w: "weights s2 = weights s" "train_state s2 = train_state s" and
    e: "trace s2 = trace s @ evs" "grad_calls evs = replicate (accumulation c t) Backward"
    by blast
  have "trace s1 = trace s @ (evs @ [GetSharedGrad False, GradSim, ZeroGrad])"
    using rest e by simp
  moreover have "grad_calls (evs @ [GetSharedGrad False, GradSim, ZeroGrad]) = probe_calls c t"
    using e by (simp add: grad_calls_append grad_calls_Cons grad_calls_Nil probe_calls_def)
  ultimately show ?thesis using rest w by auto
qed

lemma for_each_probe_Inr:
  "for_each xs (probe c) acc s = (Inr acc', s1) \<Longrightarrow>
     (xs \<noteq> [] \<longrightarrow> grads s1 = []) \<and> weights s1 = weights s \<and>
     train_state s1 = train_state s \<and> snd acc' = snd acc + length xs \<and>
     (\<exists>evs. trace s1 = trace s @ evs \<and>
        grad_calls evs = concat (map (\<lambda>(t, tsk). probe_calls c t) xs))"
proof (induction xs arbitrary: acc s)
  case Nil
  then show ?case by (simp add: grad_calls_Nil)
next
  case (Cons x xs)
  obtain t tsk where x: "x = (t, tsk)" by (cases x)
  from Cons.prems obtain a2 s2 where
    one: "probe c (t, tsk) acc s = (Inr a2, s2)" and
    rest: "for_each xs (probe c) a2 s2 = (Inr acc', s1)"
    by (auto simp: x split: prod.splits sum.splits)
  from probe_Inr[OF one] obtain evs1 where
    p: "grads s2 = []" "weights s2 = weights s" "train_state s2 = train_state s"
       "a2 = (t, Suc (snd acc))" and
    e1: "trace s2 = trace s @ evs1" "grad_calls evs1 = probe_calls c t" by blast
  from Cons.IH[OF rest] obtain evs2 where
    q: "xs \<noteq> [] \<longrightarrow> grads s1 = []" "weights s1 = weights s2"
       "train_state s1 = train_state s2" "snd acc' = snd a2 + length xs" and
    e2: "trace s1 = trace s2 @ evs2"
        "grad_calls evs2 = concat (map (\<lambda>(t, tsk). probe_calls c t) xs)" by blast
  have g: "grads s1 = []"
  proof (cases xs)
    case Nil
    with rest p show ?thesis by simp
  next
    case (Cons y ys)
    with q show ?thesis by simp
  qed
  have "trace s1 = trace s @ (evs1 @ evs2)" using e1 e2 by simp
  moreover have "grad_calls (evs1 @ evs2) = concat (map (\<lambda>(t, tsk). probe_calls c t) (x # xs))"
    using e1 e2 by (simp add: grad_calls_append x)
  ultimately show ?case using g p q by auto
qed

lemma sampler_update_Inr:
  assumes "sampler_update c p t0 s = (Inr t', s')"
  shows "grads s' = [] \<and> weights s' = weights s \<and> train_state s' = train_state s \<and>
     (\<exists>evs. trace s' = trace s @ evs \<and>
        grad_calls evs =
          probe_calls c (mdds_target_task p) @
          concat (map (\<lambda>(t, tsk). probe_calls c t) (sampler_task_dict c)))"
proof -
  from assms obtain target where tg: "map_of (sampler_task_dict c) (mdds_target_task p) = Some target"
    by (cases "map_of (sampler_task_dict c) (mdds_target_task p)")
       (auto simp: sampler_update_def and_then_def lookup_def raise_def)
  from assms tg obtain x s1 where
    one: "mdds_run_one_batch c (mdds_target_task p) target s = (Inr x, s1)"
    by (cases "mdds_run_one_batch c (mdds_target_task p) target s")
       (auto simp: sampler_update_def and_then_def lookup_def succeed_def split: sum.splits)
  let ?s2 = "s1\<lparr>grads := [], trace := trace s1 @ [GetSharedGrad True, ZeroGrad]\<rparr>"
  from assms tg one obtain a s3 where
    loop: "for_each (sampler_task_dict c) (probe c) (t0, 0) ?s2 = (Inr a, s3)"
    by (cases "for_each (sampler_task_dict c) (probe c) (t0, 0) ?s2")
       (auto simp: sampler_update_def and_then_def lookup_def succeed_def emit_def zero_grad_def
          split: sum.splits)
  obtain tn n where a: "a = (tn, n)" by (cases a)
  from assms tg one loop a have n: "n \<noteq> 0" and
    s': "s' = s3\<lparr>trace := trace s3 @
            [UpdateSampler, LogSamplingProbabilities tn (global_steps (train_state s3))]\<rparr>"
    by (auto simp: sampler_update_def and_then_def lookup_def succeed_def emit_def zero_grad_def
        raise_def split: if_splits)
  from mdds_run_one_batch_Inr[OF one] obtain evs1 where
    m: "weights s1 = weights s" "train_state s1 = train_state s" and
    e1: "trace s1 = trace s @ evs1"
        "grad_calls evs1 = replicate (accumulation c (mdds_target_task p)) Backward" by blast
  from for_each_probe_Inr[OF loop] obtain evs2 where
    q: "sampler_task_dict c \<noteq> [] \<longrightarrow> grads s3 = []" "weights s3 = weights ?s2"
       "train_state s3 = train_state ?s2" "snd a = snd (t0, 0::nat) + length (sampler_task_dict c)"
       and
    e2: "trace s3 = trace ?s2 @ evs2"
        "grad_calls evs2 = concat (map (\<lambda>(t, tsk). probe_calls c t) (sampler_task_dict c))"
    by blast
  from q(4) a n have "sampler_task_dict c \<noteq> []" by auto
  with q have g: "grads s3 = []" by simp
  let ?evs = "evs1 @ [GetSharedGrad True, ZeroGrad] @ evs2 @
      [UpdateSampler, LogSamplingProbabilities tn (global_steps (train_state s3))]"
  have "trace s' = trace s @ ?evs" using s' e1 e2 by simp
  moreover have "grad_calls ?evs =
          probe_calls c (mdds_target_task p) @
          concat (map (\<lambda>(t, tsk). probe_calls c t) (sampler_task_dict c))"
    using e1 e2
    by (simp add: grad_calls_append grad_calls_Cons grad_calls_Nil probe_calls_def)
  ultimately show ?thesis using s' g q m by auto
qed

lemma run_train_step_multidds_Inr:
  assumes run: "run_train_step_multidds c p s = (Inr u, s')"
    and drawn: "task_sampler s 0 = (t, tsk)"
  shows "sampler_update_freq p \<noteq> 0 \<and> grads s' = [] \<and>
     (\<exists>g main evs r.
        weights s' = weights s @ [g] \<and>
        trace s' = trace s @ main @ evs @ [WriteEntry ''loss_train'' r] \<and>
        grad_calls main = replicate (accumulation c t) Backward @ [Step, Zero] \<and>
        (if global_steps (train_state s') mod sampler_update_freq p = 0
         then grad_calls evs =
                probe_calls c (mdds_target_task p) @
                concat (map (\<lambda>(t, tsk). probe_calls c t) (sampler_task_dict c))
         else evs = []))"
proof -
  let ?s0 = "s\<lparr>task_sampler := shift 1 (task_sampler s),
                 trace := trace s @ [ModelTrain, SamplerPop t]\<rparr>"
  obtain cfg where cfg: "task_specific_configs c t = Some cfg"
    using run drawn
    by (cases "task_specific_configs c t")
       (auto simp: run_train_step_multidds_def and_then_def emit_def sampler_pop_def lookup_def
          raise_def Let_def)
  obtain x s1 where one: "mdds_run_one_batch c t tsk ?s0 = (Inr x, s1)"
    using run drawn cfg
    by (cases "mdds_run_one_batch c t tsk ?s0")
       (auto simp: run_train_step_multidds_def and_then_def emit_def sampler_pop_def lookup_def
          succeed_def Let_def split: sum.splits)
  from mdds_run_one_batch_Inr[OF one] obtain evs1 where
    m: "weights s1 = weights s" "train_state s1 = train_state s" and
    e1: "trace s1 = trace s @ [ModelTrain, SamplerPop t] @ evs1"
        "grad_calls evs1 = replicate (accumulation c t) Backward" by auto
  obtain k where k: "task_steps (train_state s) t = Some k"
    using run drawn cfg one m
    by (cases "task_steps (train_state s) t")
       (auto simp: run_train_step_multidds_def and_then_def emit_def sampler_pop_def lookup_def
          succeed_def Let_def optimizer_step_def zero_grad_def train_state_step_def step_def)
  let ?ts = "train_state s\<lparr>task_steps := (task_steps (train_state s))(t \<mapsto> k + 1),
                             global_steps := global_steps (train_state s) + 1\<rparr>"
  let ?s2 = "s1\<lparr>weights := weights s1 @ [grads s1], grads := [],
                trace := trace s1 @ [OptStep, ZeroGrad], train_state := ?ts\<rparr>"
  let ?gate = "\<lambda>s. if sampler_update_freq p = 0 then raise ZeroDivisionError s
                    else if global_steps (train_state s) mod sampler_update_freq p = 0
                    then sampler_update c p t s
                    else succeed t s"
  let ?tail = "\<lambda>task_name'.
     and_then (\<lambda>s. lookup (task_steps (train_state s)) task_name' s) (\<lambda>task_step.
     and_then (\<lambda>s. succeed (global_steps (train_state s)) s) (\<lambda>global_step.
     and_then (py_div x (gradient_accumulation_steps cfg)) (\<lambda>mean_loss.
     emit (WriteEntry ''loss_train''
       \<lparr>log_task = task_name', log_task_step = task_step, log_global_step = global_step,
        log_loss_val = mean_loss, log_rl_loss = None\<rparr>))))"
  have run2: "and_then ?gate ?tail ?s2 = (Inr u, s')"
    using run drawn cfg one m k
    by (simp add: run_train_step_multidds_def and_then_def emit_def sampler_pop_def lookup_def
          succeed_def Let_def optimizer_step_def zero_grad_def train_state_step_def step_def)
  obtain t' s3 where gate: "?gate ?s2 = (Inr t', s3)" and tail: "?tail t' s3 = (Inr u, s')"
    using run2 by (cases "?gate ?s2") (auto simp: and_then_def split: sum.splits)
  from gate have freq: "sampler_update_freq p \<noteq> 0"
    by (auto simp: raise_def split: if_splits)
  from tail obtain r where s': "s' = s3\<lparr>trace := trace s3 @ [WriteEntry ''loss_train'' r]\<rparr>"
    by (auto simp: and_then_def lookup_def succeed_def raise_def py_div_def emit_def
        split: option.splits if_splits)
  let ?main = "[ModelTrain, SamplerPop t] @ evs1 @ [OptStep, ZeroGrad]"
  have gm: "grad_calls ?main = replicate (accumulation c t) Backward @ [Step, Zero]"
    using e1(2) by (simp add: grad_calls_append grad_calls_Cons grad_calls_Nil)
  have t2: "trace ?s2 = trace s @ ?main" using e1(1) by simp
  show ?thesis
  proof (cases "global_steps ?ts mod sampler_update_freq p = 0")
    case True
    with gate freq have su: "sampler_update c p t ?s2 = (Inr t', s3)" by simp
    from sampler_update_Inr[OF su] obtain evs where
      q: "grads s3 = []" "weights s3 = weights ?s2" "train_state s3 = train_state ?s2" and
      e: "trace s3 = trace ?s2 @ evs"
         "grad_calls evs = probe_calls c (mdds_target_task p) @
            concat (map (\<lambda>(t, tsk). probe_calls c t) (sampler_task_dict c))" by blast
    have w: "weights s' = weights s @ [grads s1]" using s' q m by simp
    have tr: "trace s' = trace s @ ?main @ evs @ [WriteEntry ''loss_train'' r]" using s' e(1) t2 by simp
    have on: "global_steps (train_state s') mod sampler_update_freq p = 0"
      using s' q True by simp
    have body: "weights s' = weights s @ [grads s1] \<and>
        trace s' = trace s @ ?main @ evs @ [WriteEntry ''loss_train'' r] \<and>
        grad_calls ?main = replicate (accumulation c t) Backward @ [Step, Zero] \<and>
        (if global_steps (train_state s') mod sampler_update_freq p = 0
         then grad_calls evs =
                probe_calls c (mdds_target_task p) @
                concat (map (\<lambda>(t, tsk). probe_calls c t) (sampler_task_dict c))
         else evs = [])"
      using w tr gm e(2) on by simp
    have "\<exists>g main evs r.
        weights s' = weights s @ [g] \<and>
        trace s' = trace s @ main @ evs @ [WriteEntry ''loss_train'' r] \<and>
        grad_calls main = replicate (accumulation c t) Backward @ [Step, Zero] \<and>
        (if global_steps (train_state s') mod sampler_update_freq p = 0
         then grad_calls evs =
                probe_calls c (mdds_target_task p) @
                concat (map (\<lambda>(t, tsk). probe_calls c t) (sampler_task_dict c))
         else evs = [])"
      by (rule exI[of _ "grads s1"], rule exI[of _ ?main], rule exI[of _ evs],
          rule exI[of _ r]) (rule body)
    moreover have "grads s' = []" using s' q(1) by simp
    ultimately show ?thesis using freq by blast
  next
    case False
    with gate freq have s3: "s3 = ?s2" by (auto simp: succeed_def)
    have w: "weights s' = weights s @ [grads s1]" using s' s3 m by simp
    have tr: "trace s' = trace s @ ?main @ [] @ [WriteEntry ''loss_train'' r]" using s' s3 t2 by simp
    have off: "global_steps (train_state s') mod sampler_update_freq p \<noteq> 0"
      using s' s3 False by simp
    have body: "weights s' = weights s @ [grads s1] \<and>
        trace s' = trace s @ ?main @ [] @ [WriteEntry ''loss_train'' r] \<and>
        grad_calls ?main = replicate (accumulation c t) Backward @ [Step, Zero] \<and>
        (if global_steps (train_state s') mod sampler_update_freq p = 0
         then grad_calls [] =
                probe_calls c (mdds_target_task p) @
                concat (map (\<lambda>(t, tsk). probe_calls c t) (sampler_task_dict c))
         else [] = ([] :: event list))"
      using w tr gm off by simp
    have "\<exists>g main evs r.
        weights s' = weights s @ [g] \<and>
        trace s' = trace s @ main @ evs @ [WriteEntry ''loss_train'' r] \<and>
        grad_calls main = replicate (accumulation c t) Backward @ [Step, Zero] \<and>
        (if global_steps (train_state s') mod sampler_update_freq p = 0
         then grad_calls evs =
                probe_calls c (mdds_target_task p) @
                concat (map (\<lambda>(t, tsk). probe_calls c t) (sampler_task_dict c))
         else evs = [])"
      by (rule exI[of _ "grads s1"], rule exI[of _ ?main], rule exI[of _ "[]"],
          rule exI[of _ r]) (rule body)
    moreover have "grads s' = []" using s' s3 by simp
    ultimately show ?thesis using freq by blast
  qed
qed

lemma mdds_run_one_batch_succeeds:
  assumes "task_specific_configs c t = Some cfg" "train_dataloader_dict s t = Some st"
  shows "\<exists>x s1. mdds_run_one_batch c t tsk s = (Inr x, s1) \<and>
           dom (train_dataloader_dict s1) = dom (train_dataloader_dict s) \<and>
           train_state s1 = train_state s"
proof -
  have "dom ((train_dataloader_dict s)(t \<mapsto> y)) = dom (train_dataloader_dict s)" for y
    using assms(2) by auto
  then show ?thesis
    using assms(1)
    by (simp add: mdds_run_one_batch_def and_then_def lookup_def succeed_def
        for_range_micro_batch[OF assms(2)])
qed

lemma probe_succeeds:
  assumes "task_specific_configs c t = Some cfg" "train_dataloader_dict s t = Some st"
  shows "\<exists>s1. probe c (t, tsk) acc s = (Inr (t, Suc (snd acc)), s1) \<and>
           dom (train_dataloader_dict s1) = dom (train_dataloader_dict s) \<and>
           train_state s1 = train_state s"
proof -
  from mdds_run_one_batch_succeeds[OF assms, of tsk] obtain x s1 where
    "mdds_run_one_batch c t tsk s = (Inr x, s1)"
    "dom (train_dataloader_dict s1) = dom (train_dataloader_dict s)"
    "train_state s1 = train_state s" by blast
  then show ?thesis
    by (simp add: probe_def and_then_def emit_def zero_grad_def succeed_def)
qed

lemma for_each_probe_succeeds:
  assumes "\<forall>(t, tsk) \<in> set xs.
     t \<in> dom (task_specific_configs c) \<and> t \<in> dom (train_dataloader_dict s)"
  shows "\<exists>acc' s1. for_each xs (probe c) acc s = (Inr acc', s1) \<and>
           fst acc' \<in> insert (fst acc) (fst ` set xs) \<and>
           snd acc' = snd acc + length xs \<and>
           dom (train_dataloader_dict s1) = dom (train_dataloader_dict s) \<and>
           train_state s1 = train_state s"
  using assms
proof (induction xs arbitrary: acc s)
  case Nil
  then show ?case by simp
next
  case (Cons x xs)
  obtain t tsk where x: "x = (t, tsk)" by (cases x)
  from Cons.prems x obtain cfg st where
    "task_specific_configs c t = Some cfg" "train_dataloader_dict s t = Some st" by auto
  from probe_succeeds[OF this, of tsk acc] obtain s1 where
    one: "probe c (t, tsk) acc s = (Inr (t, Suc (snd acc)), s1)" and
    d1: "dom (train_dataloader_dict s1) = dom (train_dataloader_dict s)" and
    t1: "train_state s1 = train_state s" by blast
  have "\<forall>(t, tsk) \<in> set xs.
     t \<in> dom (task_specific_configs c) \<and> t \<in> dom (train_dataloader_dict s1)"
    using Cons.prems d1 by auto
  from Cons.IH[OF this, of "(t, Suc (snd acc))"] obtain acc' s2 where
    r: "for_each xs (probe c) (t, Suc (snd acc)) s1 = (Inr acc', s2)" and
    f0: "fst acc' \<in> insert (fst (t, Suc (snd acc))) (fst ` set xs)" and
    n0: "snd acc' = snd (t, Suc (snd acc)) + length xs" and
    d2: "dom (train_dataloader_dict s2) = dom (train_dataloader_dict s1)" and
    t2: "train_state s2 = train_state s1" by blast
  from f0 have f: "fst acc' \<in> insert t (fst ` set xs)" by simp
  from n0 have n: "snd acc' = Suc (snd acc) + length xs" by simp
  have "for_each (x # xs) (probe c) acc s = (Inr acc', s2)" by (simp add: x one r)
  moreover have "fst acc' \<in> insert (fst acc) (fst ` set (x # xs))" using f x by auto
  ultimately show ?case using n d1 d2 t1 t2 by auto
qed

lemma sampler_update_succeeds:
  assumes "probes_configured c p s"
  shows "\<exists>t' s'. sampler_update c p t0 s = (Inr t', s') \<and>
           t' \<in> fst ` set (sampler_task_dict c) \<and> train_state s' = train_state s"
proof -
  from assms have ne: "sampler_task_dict c \<noteq> []"
    and tin: "mdds_target_task p \<in> fst ` set (sampler_task_dict c)"
    and all: "\<forall>(t, tsk) \<in> set (sampler_task_dict c).
        t \<in> dom (task_specific_configs c) \<and> t \<in> dom (train_dataloader_dict s)"
    by (simp_all add: probes_configured_def)
  from tin obtain target where tg: "map_of (sampler_task_dict c) (mdds_target_task p) = Some target"
    by (metis domD dom_map_of_conv_image_fst)
  from tin all obtain cfg st where
    "task_specific_configs c (mdds_target_task p) = Some cfg"
    "train_dataloader_dict s (mdds_target_task p) = Some st" by force
  from mdds_run_one_batch_succeeds[OF this, of target] obtain x s1 where
    one: "mdds_run_one_batch c (mdds_target_task p) target s = (Inr x, s1)" and
    d1: "dom (train_dataloader_dict s1) = dom (train_dataloader_dict s)" and
    t1: "train_state s1 = train_state s" by blast
  let ?s2 = "s1\<lparr>grads := [], trace := trace s1 @ [GetSharedGrad True, ZeroGrad]\<rparr>"
  have "\<forall>(t, tsk) \<in> set (sampler_task_dict c).
        t \<in> dom (task_specific_configs c) \<and> t \<in> dom (train_dataloader_dict ?s2)"
    using all d1 by auto
  from for_each_probe_succeeds[OF this, of "(t0, 0)"] obtain acc' s3 where
    loop: "for_each (sampler_task_dict c) (probe c) (t0, 0) ?s2 = (Inr acc', s3)" and
    n0: "snd acc' = snd (t0, 0::nat) + length (sampler_task_dict c)" and
    t3: "train_state s3 = train_state ?s2" by blast
  from n0 have n: "snd acc' = length (sampler_task_dict c)" by simp
  obtain tn k where acc': "acc' = (tn, k)" by (cases acc')
  from n ne acc' have k: "k \<noteq> 0" by simp
  have tn: "tn \<in> fst ` set (sampler_task_dict c)"
  proof (cases "sampler_task_dict c")
    case Nil
    with ne show ?thesis by simp
  next
    case (Cons y ys)
    obtain t tsk where y: "y = (t, tsk)" by (cases y)
    from Cons y all obtain cfg' st' where
      "task_specific_configs c t = Some cfg'" "train_dataloader_dict ?s2 t = Some st'"
      using d1 by force
    from probe_succeeds[OF this, of tsk "(t0, 0)"] obtain sa where
      p0: "probe c (t, tsk) (t0, 0) ?s2 = (Inr (t, Suc (snd (t0, 0::nat))), sa)" and
      da: "dom (train_dataloader_dict sa) = dom (train_dataloader_dict ?s2)" by blast
    from p0 have p1: "probe c (t, tsk) (t0, 0) ?s2 = (Inr (t, Suc 0), sa)" by simp
    have "\<forall>(t, tsk) \<in> set ys.
        t \<in> dom (task_specific_configs c) \<and> t \<in> dom (train_dataloader_dict sa)"
      using all d1 da Cons by auto
    from for_each_probe_succeeds[OF this, of "(t, Suc 0)"] obtain a2 sb where
      r2: "for_each ys (probe c) (t, Suc 0) sa = (Inr a2, sb)" and
      f2: "fst a2 \<in> insert (fst (t, Suc 0)) (fst ` set ys)" by blast
    from loop p1 r2 Cons y acc' have "a2 = (tn, k)" by simp
    with f2 Cons y show ?thesis by auto
  qed
  have "sampler_update c p t0 s =
      (Inr tn, s3\<lparr>trace := trace s3 @
         [UpdateSampler, LogSamplingProbabilities tn (global_steps (train_state s3))]\<rparr>)"
    using tg one loop acc' k
    by (simp add: sampler_update_def and_then_def lookup_def succeed_def emit_def zero_grad_def)
  with tn t3 t1 show ?thesis by simp
qed

lemma run_train_step_multidds_succeeds:
  assumes drawn: "task_sampler s 0 = (t, tsk)"
    and cfg: "task_specific_configs c t = Some cfg"
    and gas: "gradient_accumulation_steps cfg \<noteq> 0"
    and dl: "train_dataloader_dict s t = Some st"
    and k: "task_steps (train_state s) t = Some k"
    and freq: "sampler_update_freq p \<noteq> 0"
    and pc: "probes_configured c p s"
    and tracked: "\<forall>(t, tsk) \<in> set (sampler_task_dict c). t \<in> dom (task_steps (train_state s))"
  shows "\<exists>s'. run_train_step_multidds c p s = (Inr (), s')"
proof -
  let ?s0 = "s\<lparr>task_sampler := shift (Suc 0) (task_sampler s),
                 trace := trace s @ [ModelTrain, SamplerPop t]\<rparr>"
  have dl0: "train_dataloader_dict ?s0 t = Some st" using dl by simp
  from mdds_run_one_batch_succeeds[OF cfg dl0, of tsk] obtain x s1 where
    one: "mdds_run_one_batch c t tsk ?s0 = (Inr x, s1)" and
    d1: "dom (train_dataloader_dict s1) = dom (train_dataloader_dict ?s0)" and
    t1: "train_state s1 = train_state ?s0" by blast
  let ?ts = "train_state s\<lparr>task_steps := (task_steps (train_state s))(t \<mapsto> k + 1),
                             global_steps := global_steps (train_state s) + 1\<rparr>"
  let ?s2 = "s1\<lparr>weights := weights s1 @ [grads s1], grads := [],
                trace := trace s1 @ [OptStep, ZeroGrad], train_state := ?ts\<rparr>"
  let ?gate = "\<lambda>s. if sampler_update_freq p = 0 then raise ZeroDivisionError s
                    else if global_steps (train_state s) mod sampler_update_freq p = 0
                    then sampler_update c p t s
                    else succeed t s"
  have pc2: "probes_configured c p ?s2"
    using pc d1 by (simp add: probes_configured_def)
  have "\<exists>t' s3. ?gate ?s2 = (Inr t', s3) \<and> train_state s3 = ?ts \<and>
          t' \<in> dom (task_steps ?ts)"
  proof (cases "global_steps ?ts mod sampler_update_freq p = 0")
    case True
    from sampler_update_succeeds[OF pc2, of t] obtain t' s3 where
      su: "sampler_update c p t ?s2 = (Inr t', s3)" and
      tin: "t' \<in> fst ` set (sampler_task_dict c)" and
      ts: "train_state s3 = train_state ?s2" by blast
    from tin tracked have "t' \<in> dom (task_steps ?ts)" by auto
    with su ts True freq show ?thesis by simp
  next
    case False
    with freq show ?thesis by (simp add: succeed_def)
  qed
  then obtain t' s3 where
    gate: "?gate ?s2 = (Inr t', s3)" and ts3: "train_state s3 = ?ts" and
    tin: "t' \<in> dom (task_steps ?ts)" by blast
  from tin ts3 obtain kk where kk: "task_steps (train_state s3) t' = Some kk"
    by (metis domD)
  show ?thesis
    using drawn cfg gas k one t1 gate kk
    by (simp add: run_train_step_multidds_def and_then_def emit_def sampler_pop_def lookup_def
          succeed_def Let_def optimizer_step_def zero_grad_def train_state_step_def step_def
          py_div_def)
qed

text \<open>
  C7: a sampler update of the MultiDDS runner that returns has run the target task's
  batch and then one batch per task of the sampler, each followed by one read of the
  gradients and one \<open>zero_grad\<close>, with no optimizer step; it leaves the gradient buffers
  empty and the weights as they were. So a whole \<open>run_train_step\<close> that returns has
  applied exactly one optimizer step, before the update, and ends with the gradient
  buffers empty, on steps that update the sampler and on steps that do not.
\<close>

theorem multidds_probes_leave_gradients_zeroed:
  "(\<forall>t0 t' s2. sampler_update c p t0 s = (Inr t', s2) \<longrightarrow>
      grads s2 = [] \<and> weights s2 = weights s \<and>
      (\<exists>evs. trace s2 = trace s @ evs \<and>
         grad_calls evs =
           probe_calls c (mdds_target_task p) @
           concat (map (\<lambda>(t, tsk). probe_calls c t) (sampler_task_dict c)))) \<and>
   (\<forall>u s'. run_train_step_multidds c p s = (Inr u, s') \<longrightarrow>
      sampler_update_freq p \<noteq> 0 \<and> grads s' = [] \<and>
      (\<exists>g main evs r.
         weights s' = weights s @ [g] \<and>
         trace s' = trace s @ main @ evs @ [WriteEntry ''loss_train'' r] \<and>
         grad_calls main =
           replicate (accumulation c (fst (task_sampler s 0))) Backward @ [Step, Zero] \<and>
         (if global_steps (train_state s') mod sampler_update_freq p = 0
          then grad_calls evs =
                 probe_calls c (mdds_target_task p) @
                 concat (map (\<lambda>(t, tsk). probe_calls c t) (sampler_task_dict c))
          else evs = [])))"
proof -
  have p1: "\<forall>t0 t' s2. sampler_update c p t0 s = (Inr t', s2) \<longrightarrow>
      grads s2 = [] \<and> weights s2 = weights s \<and>
      (\<exists>evs. trace s2 = trace s @ evs \<and>
         grad_calls evs =
           probe_calls c (mdds_target_task p) @
           concat (map (\<lambda>(t, tsk). probe_calls c t) (sampler_task_dict c)))"
    using sampler_update_Inr by blast
  obtain t tsk where drawn: "task_sampler s 0 = (t, tsk)" by (cases "task_sampler s 0")
  have p2: "\<forall>u s'. run_train_step_multidds c p s = (Inr u, s') \<longrightarrow>
      sampler_update_freq p \<noteq> 0 \<and> grads s' = [] \<and>
      (\<exists>g main evs r.
         weights s' = weights s @ [g] \<and>
         trace s' = trace s @ main @ evs @ [WriteEntry ''loss_train'' r] \<and>
         grad_calls main =
           replicate (accumulation c (fst (task_sampler s 0))) Backward @ [Step, Zero] \<and>
         (if global_steps (train_state s') mod sampler_update_freq p = 0
          then grad_calls evs =
                 probe_calls c (mdds_target_task p) @
                 concat (map (\<lambda>(t, tsk). probe_calls c t) (sampler_task_dict c))
          else evs = []))"
    using run_train_step_multidds_Inr[OF _ drawn] by (simp add: drawn)
  show ?thesis by (rule conjI[OF p1 p2])
qed

lemma example_probes_configured:
  "probes_configured example_container example_multidds_params example_state"
  by (simp add: probes_configured_def example_container_def example_multidds_params_def
      example_state_def)

theorem multidds_probes_leave_gradients_zeroed_witness:
  "(\<exists>t' s2.
      sampler_update example_container example_multidds_params ''rte'' example_state =
        (Inr t', s2) \<and>
      grads s2 = [] \<and> weights s2 = [] \<and>
      grad_calls (trace s2) =
        [Backward, Read, Zero, Backward, Backward, Read, Zero, Backward, Read, Zero]) \<and>
   (\<exists>s' g. run_train_step_multidds example_container example_multidds_params example_state =
        (Inr (), s') \<and>
      grads s' = [] \<and> weights s' = [g] \<and>
      grad_calls (trace s') =
        [Backward, Backward, Step, Zero,
         Backward, Read, Zero, Backward, Backward, Read, Zero, Backward, Read, Zero])"
proof -
  note inst = multidds_probes_leave_gradients_zeroed[of example_container
      example_multidds_params example_state]
  note i1 = inst[THEN conjunct1, rule_format]
  note i2 = inst[THEN conjunct2, rule_format]
  have calls: "probe_calls example_container ''rte'' = [Backward, Backward, Read, Zero]"
    "probe_calls example_container ''mnli'' = [Backward, Read, Zero]"
    by (simp_all add: probe_calls_def accumulation_def example_container_def eval_nat_numeral)
  have dict: "sampler_task_dict example_container =
      [(''rte'', Task ''rte''), (''mnli'', Task ''mnli'')]"
    by (simp add: example_container_def)
  have tg: "mdds_target_task example_multidds_params = ''mnli''"
    by (simp add: example_multidds_params_def)
  have init: "trace example_state = []" "weights example_state = []"
    by (simp_all add: example_state_def)
  from sampler_update_succeeds[OF example_probes_configured, of "''rte''"] obtain t' s2 where
    su: "sampler_update example_container example_multidds_params ''rte'' example_state =
           (Inr t', s2)" by blast
  from i1[OF su] obtain evs where
    "grads s2 = []" "weights s2 = weights example_state" "trace s2 = trace example_state @ evs"
    "grad_calls evs = probe_calls example_container (mdds_target_task example_multidds_params) @
       concat (map (\<lambda>(t, tsk). probe_calls example_container t)
         (sampler_task_dict example_container))"
    by blast
  then have a: "grads s2 = [] \<and> weights s2 = [] \<and>
      grad_calls (trace s2) =
        [Backward, Read, Zero, Backward, Backward, Read, Zero, Backward, Read, Zero]"
    by (simp add: calls dict tg init)
  have drawn: "task_sampler example_state 0 = (''rte'', Task ''rte'')"
    by (simp add: example_state_def)
  have cfg: "task_specific_configs example_container ''rte'' =
      Some \<lparr>gradient_accumulation_steps = 2, train_batch_size = 2\<rparr>"
    by (simp add: example_container_def)
  have gas: "gradient_accumulation_steps
      \<lparr>gradient_accumulation_steps = 2, train_batch_size = 2\<rparr> \<noteq> 0" by simp
  have dl: "train_dataloader_dict example_state ''rte'' = Some example_stream"
    by (simp add: example_state_def)
  have k: "task_steps (train_state example_state) ''rte'' = Some 0"
    by (simp add: example_state_def from_task_name_list_def)
  have freq: "sampler_update_freq example_multidds_params \<noteq> 0"
    by (simp add: example_multidds_params_def)
  have tracked: "\<forall>(t, tsk) \<in> set (sampler_task_dict example_container).
      t \<in> dom (task_steps (train_state example_state))"
    by (simp add: dict example_state_def from_task_name_list_def)
  from run_train_step_multidds_succeeds[OF drawn cfg gas dl k freq example_probes_configured
      tracked]
  obtain s' where
    run: "run_train_step_multidds example_container example_multidds_params example_state =
            (Inr (), s')" by blast
  have on: "global_steps (train_state s') mod sampler_update_freq example_multidds_params = 0"
    by (simp add: example_multidds_params_def)
  have acc: "accumulation example_container (fst (task_sampler example_state 0)) = 2"
    by (simp add: accumulation_def example_container_def example_state_def)
  from i2[OF run] obtain g main evs r where
    b: "grads s' = []" "weights s' = weights example_state @ [g]"
       "trace s' = trace example_state @ main @ evs @ [WriteEntry ''loss_train'' r]"
       "grad_calls main =
          replicate (accumulation example_container (fst (task_sampler example_state 0)))
            Backward @ [Step, Zero]"
       "if global_steps (train_state s') mod sampler_update_freq example_multidds_params = 0
        then grad_calls evs =
               probe_calls example_container (mdds_target_task example_multidds_params) @
               concat (map (\<lambda>(t, tsk). probe_calls example_container t)
                 (sampler_task_dict example_container))
        else evs = []"
    by blast
  from b(5) on have e: "grad_calls evs =
               probe_calls example_container (mdds_target_task example_multidds_params) @
               concat (map (\<lambda>(t, tsk). probe_calls example_container t)
                 (sampler_task_dict example_container))" by simp
  have "grad_calls (trace s') =
        [Backward, Backward, Step, Zero,
         Backward, Read, Zero, Backward, Backward, Read, Zero, Backward, Read, Zero]"
    using b(3,4) e
    by (simp add: init grad_calls_append grad_calls_Cons grad_calls_Nil acc calls dict tg
        eval_nat_numeral)
  with b(1,2) run have c: "\<exists>s' g.
      run_train_step_multidds example_container example_multidds_params example_state =
        (Inr (), s') \<and>
      grads s' = [] \<and> weights s' = [g] \<and>
      grad_calls (trace s') =
        [Backward, Backward, Step, Zero,
         Backward, Read, Zero, Backward, Backward, Read, Zero, Backward, Read, Zero]"
    by (simp add: init)
  from su a c show ?thesis by blast
qed

end
